theory Spec2Isabelle
  imports Main
begin

section \<open>The ronda engine of quince\<close>

text \<open>
  A shallow embedding of \<^verbatim>\<open>quince/ronda/ronda.py\<close>. The class \<^verbatim>\<open>Ronda\<close> is a record
  of its attributes; every method takes the record and returns the updated one. The
  Player, Deck and Pila objects a ronda refers to live outside it (module
  \<^verbatim>\<open>quince.components\<close>), and several attributes may point to the same Player, so the
  players are kept in an explicit store indexed by object reference.
\<close>

subsection \<open>Cards, errors, collaborators\<close>

text \<open>
  Modelled from the spec: the class \<^verbatim>\<open>Card\<close>, absent from the sources. A card exposes a
  point value and an identity that equality can use. It is represented by its info tuple,
  which is what \<^verbatim>\<open>play_turn\<close> receives; the point value is component 0, as in
  \<^verbatim>\<open>x.info()[0]\<close>.
\<close>

type_synonym card = "int \<times> string"

text \<open>
  Modelled from the spec: the classes \<^verbatim>\<open>Pila\<close> and \<^verbatim>\<open>Player\<close>, absent from the sources. A
  pile is the list of its captures, each with the cards and whether it was flagged as an
  escoba; a player owns a hand and a pile.
\<close>

type_synonym capture = "card list \<times> bool"

record player =
  hand :: "card list"
  pila :: "capture list"

text \<open>A reference to a Player object; two players are equal when they are the same object.\<close>

type_synonym pref = nat

datatype error =
  RondaFinishedError
  | InvalidMoveError
  | DeckExhaustedError
  | ValueError
  | IndexError
  | ZeroDivisionError

text \<open>
  Modelled from the spec: \<^verbatim>\<open>Deck.deal\<close>, absent from the sources. It removes and
  returns an ordered sequence of \<open>n\<close> cards and fails if fewer than \<open>n\<close> remain. The
  result is the dealt cards and the deck that is left.
\<close>

definition deal :: "nat \<Rightarrow> card list \<Rightarrow> error + (card list \<times> card list)" where
  "deal n d = (if length d < n then Inl DeckExhaustedError else Inr (take n d, drop n d))"

text \<open>Modelled from the spec: \<^verbatim>\<open>Deck.cards\<close>, absent from the sources; the cards that remain.\<close>

definition cards :: "card list \<Rightarrow> card list" where
  "cards d = d"

text \<open>
  Modelled from the spec: \<^verbatim>\<open>Player.pick_up_hand\<close>, absent from the sources. It adds the
  dealt cards to the hand.
\<close>

definition pick_up_hand :: "card list \<Rightarrow> player \<Rightarrow> player" where
  "pick_up_hand cs p = p\<lparr>hand := hand p @ cs\<rparr>"

text \<open>Modelled from the spec: \<^verbatim>\<open>Player.current_hand\<close>, absent from the sources; a snapshot of the hand.\<close>

definition current_hand :: "player \<Rightarrow> card list" where
  "current_hand p = hand p"

text \<open>
  Modelled from the spec: \<^verbatim>\<open>Pila.add(cards, is_escoba=False)\<close>, absent from the sources.
  It appends the cards to the pile as one capture, optionally flagged as an escoba.
\<close>

definition pila_add :: "card list \<Rightarrow> bool \<Rightarrow> capture list \<Rightarrow> capture list" where
  "pila_add cs is_escoba pl = pl @ [(cs, is_escoba)]"

text \<open>
  Modelled from the spec: the validation of \<^verbatim>\<open>Player.pick_up_from_mesa\<close>, absent from
  the sources. Every listed card must be on the mesa; each listing needs a card of its
  own there, the listed cards being a selection from the mesa.
\<close>

fun on_mesa :: "card list \<Rightarrow> card list \<Rightarrow> bool" where
  "on_mesa m [] = True"
| "on_mesa m (c # cs) = (c \<in> set m \<and> on_mesa (remove1 c m) cs)"

text \<open>
  Modelled from the spec: the removal of the listed cards from the mesa in
  \<^verbatim>\<open>Player.pick_up_from_mesa\<close>, absent from the sources; one card of the mesa goes for
  each listing.
\<close>

fun take_from_mesa :: "card list \<Rightarrow> card list \<Rightarrow> card list" where
  "take_from_mesa m [] = m"
| "take_from_mesa m (c # cs) = take_from_mesa (remove1 c m) cs"

text \<open>
  Modelled from the spec: \<^verbatim>\<open>Player.place_card_on_mesa\<close>, absent from the sources. It
  validates that the card is in the hand, then moves it from the hand to the end of the
  mesa; a failed validation changes nothing. The result is the player and the mesa
  afterwards.
\<close>

definition place_card_on_mesa ::
  "player \<Rightarrow> card list \<Rightarrow> card \<Rightarrow> error + (player \<times> card list)" where
  "place_card_on_mesa p m own_card =
     (if own_card \<notin> set (hand p) then Inl InvalidMoveError
      else Inr (p\<lparr>hand := remove1 own_card (hand p)\<rparr>, m @ [own_card]))"

text \<open>
  Modelled from the spec: \<^verbatim>\<open>Player.pick_up_from_mesa\<close>, absent from the sources. It
  validates that the own card is in the hand and every listed card on the mesa, then
  removes the own card from the hand and the listed cards from the mesa, and appends
  them all to the player's pile as one capture; a failed validation changes nothing.
\<close>

definition pick_up_from_mesa ::
  "player \<Rightarrow> card list \<Rightarrow> card \<Rightarrow> card list \<Rightarrow> error + (player \<times> card list)" where
  "pick_up_from_mesa p m own_card mesa_cards =
     (if own_card \<notin> set (hand p) \<or> \<not> on_mesa m mesa_cards then Inl InvalidMoveError
      else Inr (p\<lparr>hand := remove1 own_card (hand p),
                   pila := pila_add (own_card # mesa_cards) False (pila p)\<rparr>,
                take_from_mesa m mesa_cards))"

subsection \<open>The class Ronda\<close>

text \<open>
  The attributes of a \<^verbatim>\<open>Ronda\<close> object, and the Player objects it can reach
  (\<open>store\<close>). The attributes \<^verbatim>\<open>_current_player\<close> and \<^verbatim>\<open>_dealt_escoba\<close> share their names
  with the getters and carry the suffix \<open>_attr\<close> here.
\<close>

record ronda =
  players :: "pref list"
  dealer :: nat
  deck :: "card list"
  finished :: bool
  last_picked_up :: pref
  dealt_escoba_attr :: bool
  mesa :: "card list"
  current_player_attr :: nat
  store :: "pref \<Rightarrow> player"

text \<open>Python's \<^verbatim>\<open>list.index\<close>: the first position of the value, ValueError when absent.\<close>

fun list_index :: "'a list \<Rightarrow> 'a \<Rightarrow> error + nat" where
  "list_index [] x = Inl ValueError"
| "list_index (y # ys) x =
     (if y = x then Inr 0
      else (case list_index ys x of Inl e \<Rightarrow> Inl e | Inr i \<Rightarrow> Inr (Suc i)))"

text \<open>Python's \<^verbatim>\<open>xs[i]\<close> for a non-negative index: IndexError out of range.\<close>

definition getitem :: "'a list \<Rightarrow> nat \<Rightarrow> error + 'a" where
  "getitem xs i = (if i < length xs then Inr (xs ! i) else Inl IndexError)"

definition current_mesa :: "ronda \<Rightarrow> card list" where
  "current_mesa s = mesa s"

definition is_finished :: "ronda \<Rightarrow> bool" where
  "is_finished s = finished s"

definition dealt_escoba :: "ronda \<Rightarrow> bool" where
  "dealt_escoba s = dealt_escoba_attr s"

definition current_player :: "ronda \<Rightarrow> error + pref" where
  "current_player s = getitem (players s) (current_player_attr s)"

text \<open>\<^verbatim>\<open>_next_player\<close>; the remainder by an empty players list raises.\<close>

definition next_player :: "ronda \<Rightarrow> error option \<times> ronda" where
  "next_player s =
     (if length (players s) = 0 then (Some ZeroDivisionError, s)
      else (None, s\<lparr>current_player_attr := (current_player_attr s + 1) mod length (players s)\<rparr>))"

text \<open>
  The loop of \<^verbatim>\<open>_deal_hands\<close> over the players, in the order of the list. A deal that
  fails leaves the hands dealt so far in place.
\<close>

fun deal_hands_loop :: "pref list \<Rightarrow> ronda \<Rightarrow> error option \<times> ronda" where
  "deal_hands_loop [] s = (None, s)"
| "deal_hands_loop (plyr # rest) s =
     (case deal 3 (deck s) of
        Inl e \<Rightarrow> (Some e, s)
      | Inr (cs, d) \<Rightarrow>
          deal_hands_loop rest
            (s\<lparr>deck := d, store := (store s)(plyr := pick_up_hand cs (store s plyr))\<rparr>))"

definition deal_hands :: "ronda \<Rightarrow> error option \<times> ronda" where
  "deal_hands s =
     (if finished s then (Some RondaFinishedError, s)
      else deal_hands_loop (players s) s)"

text \<open>
  \<^verbatim>\<open>Ronda.__init__\<close>, given the store of the Player objects. The attribute
  \<^verbatim>\<open>_current_player\<close> is assigned last in the source and not read before; the record
  holds the dealer's index until then. A constructor that raises yields no object.
\<close>

definition Ronda_init ::
  "(pref \<Rightarrow> player) \<Rightarrow> pref list \<Rightarrow> pref \<Rightarrow> card list \<Rightarrow> error + ronda" where
  "Ronda_init st plyrs dlr dck =
     (case list_index plyrs dlr of
        Inl e \<Rightarrow> Inl e
      | Inr di \<Rightarrow>
         (case deal 4 dck of
            Inl e \<Rightarrow> Inl e
          | Inr (m, d) \<Rightarrow>
             (let s0 = \<lparr>players = plyrs, dealer = di, deck = d, finished = False,
                        last_picked_up = dlr, dealt_escoba_attr = False, mesa = m,
                        current_player_attr = di, store = st\<rparr>;
                  mesa_sum = sum_list (map fst (mesa s0))
              in (case (if mesa_sum = 15
                        then (case getitem (players s0) (dealer s0) of
                                Inl e \<Rightarrow> Inl e
                              | Inr p \<Rightarrow>
                                  Inr (s0\<lparr>store := (store s0)
                                             (p := (store s0 p)
                                                \<lparr>pila := pila_add (current_mesa s0) True
                                                          (pila (store s0 p))\<rparr>),
                                          mesa := [], dealt_escoba_attr := True\<rparr>))
                        else Inr s0) of
                    Inl e \<Rightarrow> Inl e
                  | Inr s1 \<Rightarrow>
                     (case deal_hands s1 of
                        (Some e, s2) \<Rightarrow> Inl e
                      | (None, s2) \<Rightarrow>
                         (case next_player (s2\<lparr>current_player_attr := dealer s2\<rparr>) of
                            (Some e, s3) \<Rightarrow> Inl e
                          | (None, s3) \<Rightarrow> Inr s3))))))"

text \<open>The selection passed as \<^verbatim>\<open>mesa_cards\<close>; \<^verbatim>\<open>None\<close> is the default.\<close>

fun selection :: "card list option \<Rightarrow> card list" where
  "selection None = []"
| "selection (Some cs) = cs"

text \<open>
  The first part of \<^verbatim>\<open>play_turn\<close>: the current player performs an action. A raise
  of the player's method leaves every attribute as it was.
\<close>

definition turn_action :: "ronda \<Rightarrow> card \<Rightarrow> card list option \<Rightarrow> error + ronda" where
  "turn_action s own_card mesa_cards =
     (case current_player s of
        Inl e \<Rightarrow> Inl e
      | Inr p \<Rightarrow>
          if mesa_cards = Some [] \<or> mesa_cards = None
          then (case place_card_on_mesa (store s p) (mesa s) own_card of
                  Inl e \<Rightarrow> Inl e
                | Inr (pl, m) \<Rightarrow> Inr (s\<lparr>mesa := m, store := (store s)(p := pl)\<rparr>))
          else (case pick_up_from_mesa (store s p) (mesa s) own_card (selection mesa_cards) of
                  Inl e \<Rightarrow> Inl e
                | Inr (pl, m) \<Rightarrow>
                    Inr (s\<lparr>mesa := m, store := (store s)(p := pl), last_picked_up := p\<rparr>)))"

text \<open>The condition \<^verbatim>\<open>hand_is_done\<close> of \<^verbatim>\<open>play_turn\<close>.\<close>

definition hand_is_done :: "ronda \<Rightarrow> error + bool" where
  "hand_is_done s =
     (case current_player s of
        Inl e \<Rightarrow> Inl e
      | Inr p \<Rightarrow>
         (case getitem (players s) (dealer s) of
            Inl e \<Rightarrow> Inl e
          | Inr d \<Rightarrow> Inr (p = d \<and> current_hand (store s p) = [])))"

text \<open>
  \<^verbatim>\<open>play_turn\<close>. The result is the exception raised, if any, and the object as the
  call leaves it.
\<close>

definition play_turn :: "ronda \<Rightarrow> card \<Rightarrow> card list option \<Rightarrow> error option \<times> ronda" where
  "play_turn s own_card mesa_cards =
     (if is_finished s then (Some RondaFinishedError, s)
      else
        (case turn_action s own_card mesa_cards of
           Inl e \<Rightarrow> (Some e, s)
         | Inr s1 \<Rightarrow>
            (case hand_is_done s1 of
               Inl e \<Rightarrow> (Some e, s1)
             | Inr done \<Rightarrow>
                 if done \<and> cards (deck s1) = []
                 then (None,
                       s1\<lparr>store := (store s1)
                            (last_picked_up s1 := (store s1 (last_picked_up s1))
                               \<lparr>pila := pila_add (current_mesa s1) False
                                         (pila (store s1 (last_picked_up s1)))\<rparr>),
                          finished := True\<rparr>)
                 else if done
                 then (case deal_hands s1 of
                         (Some e, s2) \<Rightarrow> (Some e, s2)
                       | (None, s2) \<Rightarrow> next_player s2)
                 else next_player s1)))"

text \<open>
  A sequence of calls of \<^verbatim>\<open>play_turn\<close>: the object after the last call when every
  call returns, the exception of the first call that raises otherwise.
\<close>

fun play_turns :: "ronda \<Rightarrow> (card \<times> card list option) list \<Rightarrow> error + ronda" where
  "play_turns s [] = Inr s"
| "play_turns s ((own_card, mesa_cards) # rest) =
     (case play_turn s own_card mesa_cards of
        (None, s') \<Rightarrow> play_turns s' rest
      | (Some e, s') \<Rightarrow> Inl e)"

text \<open>Construction followed by a sequence of calls of \<^verbatim>\<open>play_turn\<close>.\<close>

definition ronda_after ::
  "(pref \<Rightarrow> player) \<Rightarrow> pref list \<Rightarrow> pref \<Rightarrow> card list \<Rightarrow>
     (card \<times> card list option) list \<Rightarrow> error + ronda" where
  "ronda_after st plyrs dlr dck calls =
     (case Ronda_init st plyrs dlr dck of
        Inl e \<Rightarrow> Inl e
      | Inr s \<Rightarrow> play_turns s calls)"

subsection \<open>Invariants, measures and sample rounds\<close>

text \<open>The object after the opening deal and the escoba check, before the hands are dealt.\<close>

definition opening_deal ::
  "(pref \<Rightarrow> player) \<Rightarrow> pref list \<Rightarrow> pref \<Rightarrow> nat \<Rightarrow> card list \<Rightarrow> ronda" where
  "opening_deal st ps d di dk =
     \<lparr>players = ps, dealer = di, deck = drop 4 dk, finished = False,
      last_picked_up = d,
      dealt_escoba_attr = (sum_list (map fst (take 4 dk)) = 15),
      mesa = (if sum_list (map fst (take 4 dk)) = 15 then [] else take 4 dk),
      current_player_attr = di,
      store = (if sum_list (map fst (take 4 dk)) = 15
               then st(d := (st d)\<lparr>pila := pila_add (take 4 dk) True (pila (st d))\<rparr>)
               else st)\<rparr>"

text \<open>
  The turn goes from the player after the dealer round to the dealer. With the dealer at
  index \<open>d\<close> and the current player at index \<open>c\<close>, the player at index \<open>j\<close> has already
  played in this go-around.
\<close>

definition played :: "nat \<Rightarrow> nat \<Rightarrow> nat \<Rightarrow> bool" where
  "played d c j = (if d < c then d < j \<and> j < c else d < j \<or> j < c)"

text \<open>The number of cards in the hand of the player at an index of the players list.\<close>

definition hand_size :: "ronda \<Rightarrow> nat \<Rightarrow> nat" where
  "hand_size s j = length (hand (store s (players s ! j)))"

text \<open>
  What holds of every round built from distinct new players: the indices are valid, the
  last picker is one of the players, and the hands go down together; for some
  \<open>r\<close> from 1 to 3 the players who have played in this go-around hold \<open>r - 1\<close> cards
  and the others \<open>r\<close>. A finished round has the dealer as current player, an empty
  deck and empty hands.
\<close>

definition round_inv :: "ronda \<Rightarrow> bool" where
  "round_inv s =
     (distinct (players s) \<and> dealer s < length (players s) \<and>
      current_player_attr s < length (players s) \<and>
      last_picked_up s \<in> set (players s) \<and>
      (if finished s
       then current_player_attr s = dealer s \<and> deck s = [] \<and>
            (\<forall>j<length (players s). hand_size s j = 0)
       else (\<exists>r\<in>{1, 2, 3}. \<forall>j<length (players s).
               hand_size s j = (if played (dealer s) (current_player_attr s) j then r - 1 else r))))"

text \<open>Players as they are created: with an empty hand and an empty pile.\<close>

definition fresh_players :: "(pref \<Rightarrow> player) \<Rightarrow> pref list \<Rightarrow> bool" where
  "fresh_players st ps = (\<forall>p\<in>set ps. hand (st p) = [] \<and> pila (st p) = [])"

text \<open>The number of cards in a pile.\<close>

definition pila_size :: "capture list \<Rightarrow> nat" where
  "pila_size pl = sum_list (map (\<lambda>c. length (fst c)) pl)"

text \<open>The cards of the deck, of all hands, of the mesa and of all piles.\<close>

definition total_cards :: "ronda \<Rightarrow> nat" where
  "total_cards s =
     length (deck s) + sum_list (map (\<lambda>p. length (hand (store s p))) (players s)) +
     length (mesa s) + sum_list (map (\<lambda>p. pila_size (pila (store s p))) (players s))"

text \<open>
  What holds of every round whatever the players: the current player index is valid,
  the dealer's index points to the dealer, and a finished round has the dealer as
  current player.
\<close>

definition index_inv :: "pref \<Rightarrow> ronda \<Rightarrow> bool" where
  "index_inv d s =
     (current_player_attr s < length (players s) \<and>
      getitem (players s) (dealer s) = Inr d \<and>
      (finished s \<longrightarrow> current_player s = Inr d))"

text \<open>
  Sample rounds. Two new players, with references 0 and 1; player 0 deals, so player 1
  plays first. Cards are written as (value, suit).
\<close>

definition new_players :: "pref \<Rightarrow> player" where
  "new_players = (\<lambda>p. \<lparr>hand = [], pila = []\<rparr>)"

text \<open>Decks: one that two hands exhaust, one with a card too many, one for two deals of hands,
  and one whose first four cards add up to 15.\<close>

definition deck10 :: "card list" where
  "deck10 = [(1, ''o''), (2, ''o''), (3, ''o''), (4, ''o''), (5, ''o''), (6, ''o''), (7, ''o''),
             (1, ''c''), (2, ''c''), (3, ''c'')]"

definition deck11 :: "card list" where
  "deck11 = deck10 @ [(9, ''e'')]"

definition deck16 :: "card list" where
  "deck16 = deck10 @ [(4, ''c''), (5, ''c''), (6, ''c''), (7, ''c''), (1, ''e''), (2, ''e'')]"

definition escoba_deck :: "card list" where
  "escoba_deck = [(1, ''o''), (2, ''o''), (5, ''o''), (7, ''o''), (3, ''o''), (4, ''o''),
                  (6, ''o''), (1, ''c''), (2, ''c''), (3, ''c'')]"

text \<open>Five calls that return: each player places or captures in turn, one card before the
  dealer's hand is empty. The second sequence captures so that a single card is on the mesa.\<close>

definition calls5 :: "(card \<times> card list option) list" where
  "calls5 = [((1, ''c''), None), ((5, ''o''), Some [(4, ''o'')]), ((2, ''c''), None),
             ((6, ''o''), None), ((3, ''c''), None)]"

definition sweep5 :: "(card \<times> card list option) list" where
  "sweep5 = [((1, ''c''), None),
             ((5, ''o''), Some [(1, ''o''), (2, ''o''), (3, ''o''), (4, ''o''), (1, ''c'')]),
             ((2, ''c''), None), ((6, ''o''), Some [(2, ''c'')]), ((3, ''c''), None)]"

text \<open>The round after construction from \<open>deck10\<close>.\<close>

definition opened :: ronda where
  "opened =
     \<lparr>players = [0, 1], dealer = 0, deck = [], finished = False, last_picked_up = 0,
      dealt_escoba_attr = False,
      mesa = [(1, ''o''), (2, ''o''), (3, ''o''), (4, ''o'')],
      current_player_attr = 1,
      store = new_players
        (0 := \<lparr>hand = [(5, ''o''), (6, ''o''), (7, ''o'')], pila = []\<rparr>,
         1 := \<lparr>hand = [(1, ''c''), (2, ''c''), (3, ''c'')], pila = []\<rparr>)\<rparr>"

text \<open>The round after \<open>calls5\<close>, with what is left of the deck: the dealer holds one card.\<close>

definition last_turn :: "card list \<Rightarrow> ronda" where
  "last_turn dk =
     \<lparr>players = [0, 1], dealer = 0, deck = dk, finished = False, last_picked_up = 0,
      dealt_escoba_attr = False,
      mesa = [(1, ''o''), (2, ''o''), (3, ''o''), (1, ''c''), (2, ''c''), (6, ''o''), (3, ''c'')],
      current_player_attr = 0,
      store = new_players
        (0 := \<lparr>hand = [(7, ''o'')], pila = [([(5, ''o''), (4, ''o'')], False)]\<rparr>,
         1 := \<lparr>hand = [], pila = []\<rparr>)\<rparr>"

text \<open>The same once the dealer has placed that card on the mesa.\<close>

definition last_action :: "card list \<Rightarrow> ronda" where
  "last_action dk =
     (last_turn dk)
       \<lparr>mesa := [(1, ''o''), (2, ''o''), (3, ''o''), (1, ''c''), (2, ''c''), (6, ''o''),
                 (3, ''c''), (7, ''o'')],
        store := new_players
          (0 := \<lparr>hand = [], pila = [([(5, ''o''), (4, ''o'')], False)]\<rparr>,
           1 := \<lparr>hand = [], pila = []\<rparr>)\<rparr>"

text \<open>The round after the sixth call, with the deck empty.\<close>

definition finished_round :: ronda where
  "finished_round =
     (last_action [])
       \<lparr>finished := True,
        store := new_players
          (0 := \<lparr>hand = [],
                 pila = [([(5, ''o''), (4, ''o'')], False),
                         ([(1, ''o''), (2, ''o''), (3, ''o''), (1, ''c''), (2, ''c''),
                           (6, ''o''), (3, ''c''), (7, ''o'')], False)]\<rparr>,
           1 := \<lparr>hand = [], pila = []\<rparr>)\<rparr>"

text \<open>The round after \<open>sweep5\<close>, and once the dealer has captured the last card of the mesa.\<close>

definition sweep_turn :: ronda where
  "sweep_turn =
     \<lparr>players = [0, 1], dealer = 0, deck = [], finished = False, last_picked_up = 0,
      dealt_escoba_attr = False, mesa = [(3, ''c'')], current_player_attr = 0,
      store = new_players
        (0 := \<lparr>hand = [(7, ''o'')],
               pila = [([(5, ''o''), (1, ''o''), (2, ''o''), (3, ''o''), (4, ''o''), (1, ''c'')],
                        False),
                       ([(6, ''o''), (2, ''c'')], False)]\<rparr>,
         1 := \<lparr>hand = [], pila = []\<rparr>)\<rparr>"

definition sweep_action :: ronda where
  "sweep_action =
     sweep_turn
       \<lparr>mesa := [],
        store := new_players
          (0 := \<lparr>hand = [],
                 pila = [([(5, ''o''), (1, ''o''), (2, ''o''), (3, ''o''), (4, ''o''), (1, ''c'')],
                          False),
                         ([(6, ''o''), (2, ''c'')], False),
                         ([(7, ''o''), (3, ''c'')], False)]\<rparr>,
           1 := \<lparr>hand = [], pila = []\<rparr>)\<rparr>"

text \<open>The round after construction from \<open>escoba_deck\<close>.\<close>

definition escoba_opened :: ronda where
  "escoba_opened =
     \<lparr>players = [0, 1], dealer = 0, deck = [], finished = False, last_picked_up = 0,
      dealt_escoba_attr = True, mesa = [], current_player_attr = 1,
      store = new_players
        (0 := \<lparr>hand = [(3, ''o''), (4, ''o''), (6, ''o'')],
               pila = [([(1, ''o''), (2, ''o''), (5, ''o''), (7, ''o'')], True)]\<rparr>,
         1 := \<lparr>hand = [(1, ''c''), (2, ''c''), (3, ''c'')], pila = []\<rparr>)\<rparr>"

text \<open>The round after the sixth call with six cards left in the deck: new hands are dealt.\<close>

definition redealt :: ronda where
  "redealt =
     (last_action [])
       \<lparr>current_player_attr := 1,
        store := new_players
          (0 := \<lparr>hand = [(4, ''c''), (5, ''c''), (6, ''c'')],
                 pila = [([(5, ''o''), (4, ''o'')], False)]\<rparr>,
           1 := \<lparr>hand = [(7, ''c''), (1, ''e''), (2, ''e'')], pila = []\<rparr>)\<rparr>"

text \<open>
  A hand of exactly 3 cards has been dealt to every player between the state after the
  action and the state the call leaves: going through the players in the order of the
  list, each has received the next 3 cards of the deck.
\<close>

definition hands_dealt :: "ronda \<Rightarrow> ronda \<Rightarrow> bool" where
  "hands_dealt s1 s' =
     (3 * length (players s1) \<le> length (deck s1) \<and>
      deck s' = drop (3 * length (players s1)) (deck s1) \<and>
      (\<forall>j<length (players s1).
         hand (store s' (players s1 ! j)) =
           hand (store s1 (players s1 ! j)) @ take 3 (drop (3 * j) (deck s1))))"

section \<open>Properties\<close>

subsection \<open>What the methods leave unchanged\<close>

lemma deal_hands_loop_frame:
  "deal_hands_loop ps s = (r, s') \<Longrightarrow>
     players s' = players s \<and> dealer s' = dealer s \<and> finished s' = finished s \<and>
     last_picked_up s' = last_picked_up s \<and> dealt_escoba_attr s' = dealt_escoba_attr s \<and>
     mesa s' = mesa s \<and> current_player_attr s' = current_player_attr s \<and>
     (\<forall>p. pila (store s' p) = pila (store s p))"

proof (induction ps arbitrary: s)
  case Nil
  then show ?case by simp

next
  case (Cons plyr rest)
  show ?case
  proof (cases "deal 3 (deck s)")
    case (Inl e)
    with Cons.prems show ?thesis by simp
  next
    case (Inr cd)
    obtain cs d where cd: "cd = (cs, d)" by (cases cd)
    let ?s1 = "s\<lparr>deck := d, store := (store s)(plyr := pick_up_hand cs (store s plyr))\<rparr>"
    from Cons.prems Inr cd have "deal_hands_loop rest ?s1 = (r, s')" by simp
    from Cons.IH[OF this] show ?thesis by (simp add: pick_up_hand_def)
  qed

qed

lemma deal_hands_frame:
  "deal_hands s = (r, s') \<Longrightarrow>
     players s' = players s \<and> dealer s' = dealer s \<and> finished s' = finished s \<and>
     last_picked_up s' = last_picked_up s \<and> dealt_escoba_attr s' = dealt_escoba_attr s \<and>
     mesa s' = mesa s \<and> current_player_attr s' = current_player_attr s \<and>
     (\<forall>p. pila (store s' p) = pila (store s p))"
  unfolding deal_hands_def using deal_hands_loop_frame[of "players s" s r s']
  by (auto split: if_splits)

lemma next_player_frame:
  "next_player s = (r, s') \<Longrightarrow>
     players s' = players s \<and> dealer s' = dealer s \<and> finished s' = finished s \<and>
     last_picked_up s' = last_picked_up s \<and> dealt_escoba_attr s' = dealt_escoba_attr s \<and>
     mesa s' = mesa s \<and> deck s' = deck s \<and> store s' = store s"
  by (auto simp: next_player_def split: if_splits)

lemma turn_action_frame:
  "turn_action s own_card mesa_cards = Inr s1 \<Longrightarrow>
     players s1 = players s \<and> dealer s1 = dealer s \<and> finished s1 = finished s \<and>
     dealt_escoba_attr s1 = dealt_escoba_attr s \<and> deck s1 = deck s \<and>
     current_player_attr s1 = current_player_attr s"
  by (auto simp: turn_action_def split: sum.splits if_splits prod.splits)

subsection \<open>Dealing hands\<close>

lemma deal_hands_loop_short:
  "length (deck s) < 3 * length ps \<Longrightarrow> fst (deal_hands_loop ps s) = Some DeckExhaustedError"

proof (induction ps arbitrary: s)
  case Nil
  then show ?case by simp

next
  case (Cons plyr rest)
  show ?case
  proof (cases "length (deck s) < 3")
    case True
    then show ?thesis by (simp add: deal_def)
  next
    case False
    let ?s1 = "s\<lparr>deck := drop 3 (deck s),
                  store := (store s)(plyr := pick_up_hand (take 3 (deck s)) (store s plyr))\<rparr>"
    from Cons.prems False have "length (deck ?s1) < 3 * length rest" by simp
    from Cons.IH[OF this] False show ?thesis by (simp add: deal_def)
  qed

qed

lemma deal_hands_loop_enough:
  "3 * length ps \<le> length (deck s) \<Longrightarrow> distinct ps \<Longrightarrow>
     \<exists>s'. deal_hands_loop ps s = (None, s') \<and>
          deck s' = drop (3 * length ps) (deck s) \<and>
          (\<forall>i<length ps. hand (store s' (ps ! i)) =
                            hand (store s (ps ! i)) @ take 3 (drop (3 * i) (deck s))) \<and>
          (\<forall>p. p \<notin> set ps \<longrightarrow> store s' p = store s p)"

proof (induction ps arbitrary: s)
  case Nil
  then show ?case by simp

next
  case (Cons plyr rest)
  let ?s1 = "s\<lparr>deck := drop 3 (deck s),
                store := (store s)(plyr := pick_up_hand (take 3 (deck s)) (store s plyr))\<rparr>"
  from Cons.prems have len: "3 * length rest \<le> length (deck ?s1)" and d: "distinct rest"
    and notin: "plyr \<notin> set rest" by simp_all
  from Cons.IH[OF len d] obtain s' where
    run: "deal_hands_loop rest ?s1 = (None, s')" and
    dk: "deck s' = drop (3 * length rest) (deck ?s1)" and
    hands: "\<forall>i<length rest. hand (store s' (rest ! i)) =
               hand (store ?s1 (rest ! i)) @ take 3 (drop (3 * i) (deck ?s1))" and
    others: "\<forall>p. p \<notin> set rest \<longrightarrow> store s' p = store ?s1 p"
    by blast
  from Cons.prems have "\<not> length (deck s) < 3" by simp
  with run have 1: "deal_hands_loop (plyr # rest) s = (None, s')" by (simp add: deal_def)
  from dk have 2: "deck s' = drop (3 * length (plyr # rest)) (deck s)" by (simp add: add.commute)
  have 3: "hand (store s' ((plyr # rest) ! i)) =
             hand (store s ((plyr # rest) ! i)) @ take 3 (drop (3 * i) (deck s))"
    if "i < length (plyr # rest)" for i
  proof (cases i)
    case 0
    with others notin show ?thesis by (simp add: pick_up_hand_def)
  next
    case (Suc k)
    with that have k: "k < length rest" by simp
    then have "rest ! k \<in> set rest" by simp
    with notin have ne: "rest ! k \<noteq> plyr" by auto
    from hands k have "hand (store s' (rest ! k)) =
        hand (store ?s1 (rest ! k)) @ take 3 (drop (3 * k) (deck ?s1))" by blast
    with ne Suc show ?thesis by (simp add: add.commute)
  qed
  have 4: "store s' p = store s p" if "p \<notin> set (plyr # rest)" for p
    using that others by simp
  from 1 2 3 4 show ?case by blast

qed

lemma deal_hands_loop_error:
  "fst (deal_hands_loop ps s) = Some e \<Longrightarrow> e = DeckExhaustedError \<and> length (deck s) < 3 * length ps"

proof (induction ps arbitrary: s)
  case Nil
  then show ?case by simp

next
  case (Cons plyr rest)
  show ?case
  proof (cases "length (deck s) < 3")
    case True
    with Cons.prems show ?thesis by (simp add: deal_def)
  next
    case False
    let ?s1 = "s\<lparr>deck := drop 3 (deck s),
                  store := (store s)(plyr := pick_up_hand (take 3 (deck s)) (store s plyr))\<rparr>"
    from Cons.prems False have "fst (deal_hands_loop rest ?s1) = Some e" by (simp add: deal_def)
    from Cons.IH[OF this] False show ?thesis by auto
  qed

qed

subsection \<open>Construction\<close>

lemma list_index_Inr: "list_index xs x = Inr i \<Longrightarrow> i < length xs \<and> xs ! i = x"
  by (induction xs arbitrary: i) (auto split: if_splits sum.splits)

lemma list_index_Inl: "list_index xs x = Inl e \<Longrightarrow> e = ValueError \<and> x \<notin> set xs"
  by (induction xs) (auto split: if_splits sum.splits)

lemma list_index_mem: "x \<in> set xs \<Longrightarrow> \<exists>i. list_index xs x = Inr i"
  by (induction xs) auto

lemma Ronda_init_eq:
  assumes di: "list_index ps d = Inr di" and len: "4 \<le> length dk"
  shows "Ronda_init st ps d dk =
           (case deal_hands_loop ps (opening_deal st ps d di dk) of
              (Some e, s2) \<Rightarrow> Inl e
            | (None, s2) \<Rightarrow> Inr (s2\<lparr>current_player_attr := (di + 1) mod length ps\<rparr>))"

proof -
  from list_index_Inr[OF di] have lt: "di < length ps" and nth: "ps ! di = d" by simp_all
  obtain r s2 where run: "deal_hands_loop ps (opening_deal st ps d di dk) = (r, s2)"
    by (cases "deal_hands_loop ps (opening_deal st ps d di dk)")
  from deal_hands_loop_frame[OF run]
  have fr: "players s2 = ps" "dealer s2 = di" by (simp_all add: opening_deal_def)
  have nx: "next_player (s2\<lparr>current_player_attr := dealer s2\<rparr>) =
              (None, s2\<lparr>current_player_attr := (di + 1) mod length ps\<rparr>)"
    using fr lt by (auto simp: next_player_def)
  have "Ronda_init st ps d dk =
          (case deal_hands (opening_deal st ps d di dk) of
             (Some e, s2) \<Rightarrow> Inl e
           | (None, s2) \<Rightarrow>
               (case next_player (s2\<lparr>current_player_attr := dealer s2\<rparr>) of
                  (Some e, s3) \<Rightarrow> Inl e
                | (None, s3) \<Rightarrow> Inr s3))"
    using di len lt nth
    by (simp add: Ronda_init_def deal_def getitem_def current_mesa_def opening_deal_def Let_def)
  also have "deal_hands (opening_deal st ps d di dk) = (r, s2)"
    using run by (simp add: deal_hands_def opening_deal_def)
  finally show ?thesis using run nx by (cases r) simp_all

qed

lemma Ronda_init_Inr:
  assumes "Ronda_init st ps d dk = Inr s"
  shows "\<exists>di s2. list_index ps d = Inr di \<and> 4 \<le> length dk \<and>
           deal_hands_loop ps (opening_deal st ps d di dk) = (None, s2) \<and>
           s = s2\<lparr>current_player_attr := (di + 1) mod length ps\<rparr>"

proof -
  from assms obtain di where di: "list_index ps d = Inr di"
    by (auto simp: Ronda_init_def split: sum.splits)
  from assms di have len: "4 \<le> length dk"
    by (auto simp: Ronda_init_def deal_def split: sum.splits if_splits)
  from assms Ronda_init_eq[OF di len, of st] di len show ?thesis
    by (auto split: prod.splits option.splits)

qed

lemma Ronda_init_short_deck:
  assumes "d \<in> set ps" and "length dk < 4 + 3 * length ps"
  shows "Ronda_init st ps d dk = Inl DeckExhaustedError"

proof -
  from list_index_mem[OF assms(1)] obtain di where di: "list_index ps d = Inr di" by blast
  show ?thesis
  proof (cases "length dk < 4")
    case True
    with di show ?thesis by (simp add: Ronda_init_def deal_def)
  next
    case False
    then have len: "4 \<le> length dk" by simp
    have "length (deck (opening_deal st ps d di dk)) < 3 * length ps"
      using assms(2) False by (simp add: opening_deal_def)
    from deal_hands_loop_short[OF this] show ?thesis
      by (auto simp: Ronda_init_eq[OF di len] split: prod.splits option.splits)
  qed

qed

lemma Ronda_init_DeckExhausted:
  assumes "Ronda_init st ps d dk = Inl DeckExhaustedError"
  shows "d \<in> set ps \<and> length dk < 4 + 3 * length ps"

proof -
  from assms obtain di where di: "list_index ps d = Inr di"
    by (cases "list_index ps d") (auto simp: Ronda_init_def dest: list_index_Inl)
  from list_index_Inr[OF di] have mem: "d \<in> set ps" by auto
  show ?thesis
  proof (cases "length dk < 4")
    case True
    with mem show ?thesis by simp
  next
    case False
    then have len: "4 \<le> length dk" by simp
    from assms have "fst (deal_hands_loop ps (opening_deal st ps d di dk)) = Some DeckExhaustedError"
      by (auto simp: Ronda_init_eq[OF di len] split: prod.splits option.splits)
    from deal_hands_loop_error[OF this] have "length dk - 4 < 3 * length ps"
      by (simp add: opening_deal_def)
    with False mem show ?thesis by simp
  qed

qed

subsection \<open>The branches of a turn\<close>

lemma turn_action_error:
  "turn_action s own_card mesa_cards = Inl e \<Longrightarrow> e = IndexError \<or> e = InvalidMoveError"
  by (auto simp: turn_action_def current_player_def getitem_def place_card_on_mesa_def
      pick_up_from_mesa_def split: sum.splits if_splits prod.splits)

lemma hand_is_done_error: "hand_is_done s = Inl e \<Longrightarrow> e = IndexError"
  by (auto simp: hand_is_done_def current_player_def getitem_def split: sum.splits if_splits)

lemma next_player_error: "next_player s = (Some e, s') \<Longrightarrow> e = ZeroDivisionError"
  by (auto simp: next_player_def split: if_splits)

lemma play_turn_unfinished:
  assumes "\<not> is_finished s" and "turn_action s own_card mesa_cards = Inr s1"
    and "hand_is_done s1 = Inr b"
  shows "play_turn s own_card mesa_cards =
           (if b \<and> deck s1 = []
            then (None,
                  s1\<lparr>store := (store s1)
                       (last_picked_up s1 := (store s1 (last_picked_up s1))
                          \<lparr>pila := pila (store s1 (last_picked_up s1)) @ [(mesa s1, False)]\<rparr>),
                     finished := True\<rparr>)
            else if b
            then (case deal_hands_loop (players s1) s1 of
                    (Some e, s2) \<Rightarrow> (Some e, s2)
                  | (None, s2) \<Rightarrow> next_player s2)
            else next_player s1)"

proof -
  from turn_action_frame[OF assms(2)] assms(1) have "\<not> finished s1"
    by (simp add: is_finished_def)
  with assms show ?thesis
    by (simp add: play_turn_def cards_def pila_add_def current_mesa_def deal_hands_def)

qed

lemma play_turn_DeckExhausted:
  "fst (play_turn s own_card mesa_cards) = Some DeckExhaustedError \<longleftrightarrow>
     \<not> is_finished s \<and>
     (\<exists>s1. turn_action s own_card mesa_cards = Inr s1 \<and> hand_is_done s1 = Inr True \<and>
           deck s1 \<noteq> [] \<and> length (deck s1) < 3 * length (players s1))"
  (is "?L \<longleftrightarrow> ?R")

proof
  assume L: ?L
  then have nf: "\<not> is_finished s" by (auto simp: play_turn_def)
  from L nf obtain s1 where ta: "turn_action s own_card mesa_cards = Inr s1"
    by (cases "turn_action s own_card mesa_cards")
      (auto simp: play_turn_def dest: turn_action_error)
  from L nf ta obtain b where hd: "hand_is_done s1 = Inr b"
    by (cases "hand_is_done s1") (auto simp: play_turn_def dest: hand_is_done_error)
  note pt = play_turn_unfinished[OF nf ta hd]
  have np: "fst (next_player t) \<noteq> Some DeckExhaustedError" for t
    by (auto simp: next_player_def)
  from L pt np have b: b and ne: "deck s1 \<noteq> []"
    by (auto split: if_splits)
  obtain r s2 where run: "deal_hands_loop (players s1) s1 = (r, s2)"
    by (cases "deal_hands_loop (players s1) s1")
  from L pt b ne run np[of s2] obtain e where "r = Some e" by (cases r) auto
  with run deal_hands_loop_error[of "players s1" s1 e]
  have "length (deck s1) < 3 * length (players s1)" by simp
  with nf ta hd b ne show ?R by auto

next
  assume R: ?R
  then obtain s1 where nf: "\<not> is_finished s"
    and ta: "turn_action s own_card mesa_cards = Inr s1"
    and hd: "hand_is_done s1 = Inr True" and ne: "deck s1 \<noteq> []"
    and short: "length (deck s1) < 3 * length (players s1)" by blast
  from deal_hands_loop_short[OF short] ne show ?L
    by (auto simp: play_turn_unfinished[OF nf ta hd] split: prod.splits option.splits)

qed

subsection \<open>The hands go down together\<close>

lemma played_self: "\<not> played d c c"
  by (simp add: played_def)

lemma played_dealer_turn: "j \<noteq> d \<Longrightarrow> played d d j"
  by (auto simp: played_def)

lemma played_next:
  assumes "c < n" "d < n" "j < n"
  shows "played d ((c + 1) mod n) j = (c \<noteq> d \<and> (played d c j \<or> j = c))"

proof (cases "c + 1 = n")
  case True
  then have "(c + 1) mod n = 0" by simp
  with True assms show ?thesis by (auto simp: played_def)

next
  case False
  with assms have "(c + 1) mod n = c + 1" by simp
  with assms show ?thesis by (auto simp: played_def)

qed

lemma turn_action_Inr:
  assumes "turn_action s own_card mesa_cards = Inr s1"
  shows "\<exists>p. current_player s = Inr p \<and> own_card \<in> set (hand (store s p)) \<and>
           hand (store s1 p) = remove1 own_card (hand (store s p)) \<and>
           (\<forall>q. q \<noteq> p \<longrightarrow> store s1 q = store s q) \<and>
           (if mesa_cards = Some [] \<or> mesa_cards = None
            then mesa s1 = mesa s @ [own_card] \<and> pila (store s1 p) = pila (store s p) \<and>
                 last_picked_up s1 = last_picked_up s
            else on_mesa (mesa s) (selection mesa_cards) \<and>
                 mesa s1 = take_from_mesa (mesa s) (selection mesa_cards) \<and>
                 pila (store s1 p) =
                   pila (store s p) @ [(own_card # selection mesa_cards, False)] \<and>
                 last_picked_up s1 = p)"
  using assms
  by (auto simp: turn_action_def place_card_on_mesa_def pick_up_from_mesa_def pila_add_def
      split: sum.splits if_splits prod.splits)

lemma inv_after_action:
  assumes inv: "round_inv s" and nf: "\<not> finished s"
    and ta: "turn_action s own_card mesa_cards = Inr s1"
  shows "\<exists>r\<in>{1, 2, 3}.
           (\<forall>j<length (players s). hand_size s j =
               (if played (dealer s) (current_player_attr s) j then r - 1 else r)) \<and>
           (\<forall>j<length (players s). hand_size s1 j =
               (if played (dealer s) (current_player_attr s) j \<or> j = current_player_attr s
                then r - 1 else r)) \<and>
           hand_is_done s1 = Inr (current_player_attr s = dealer s \<and> r = 1)"

proof -
  let ?ps = "players s" and ?c = "current_player_attr s" and ?d = "dealer s"
  from inv have dist: "distinct ?ps" and d: "?d < length ?ps" and c: "?c < length ?ps"
    by (simp_all add: round_inv_def)
  from inv nf obtain r where r: "r \<in> {1, 2, 3}"
    and hs: "\<forall>j<length ?ps. hand_size s j = (if played ?d ?c j then r - 1 else r)"
    by (auto simp: round_inv_def)
  from turn_action_frame[OF ta] have fr: "players s1 = ?ps" "dealer s1 = ?d"
    "current_player_attr s1 = ?c" by simp_all
  from c have cp: "current_player s = Inr (?ps ! ?c)"
    by (simp add: current_player_def getitem_def)
  from turn_action_Inr[OF ta] cp
  have own: "own_card \<in> set (hand (store s (?ps ! ?c)))"
    and hand1: "hand (store s1 (?ps ! ?c)) = remove1 own_card (hand (store s (?ps ! ?c)))"
    and others: "\<forall>q. q \<noteq> ?ps ! ?c \<longrightarrow> store s1 q = store s q"
    by auto
  from hs c have hc: "hand_size s ?c = r" by (simp add: played_self)
  have h1c: "hand_size s1 ?c = r - 1"
    using hand1 own hc by (simp add: hand_size_def fr length_remove1)
  have h1: "hand_size s1 j = (if played ?d ?c j \<or> j = ?c then r - 1 else r)"
    if j: "j < length ?ps" for j
  proof (cases "j = ?c")
    case True
    with h1c show ?thesis by simp
  next
    case False
    with dist j c have "?ps ! j \<noteq> ?ps ! ?c" by (simp add: nth_eq_iff_index_eq)
    with others have "store s1 (?ps ! j) = store s (?ps ! j)" by simp
    then have "hand_size s1 j = hand_size s j" by (simp add: hand_size_def fr)
    with hs j False show ?thesis by simp
  qed
  have eqd: "(?ps ! ?c = ?ps ! ?d) = (?c = ?d)"
    using dist c d by (simp add: nth_eq_iff_index_eq)
  from h1c have "length (hand (store s1 (?ps ! ?c))) = r - 1"
    by (simp add: hand_size_def fr)
  then have "(hand (store s1 (?ps ! ?c)) = []) = (r - 1 = 0)"
    by (metis length_0_conv)
  with r have "(hand (store s1 (?ps ! ?c)) = []) = (r = 1)" by auto
  with eqd c d have "hand_is_done s1 = Inr (?c = ?d \<and> r = 1)"
    by (simp add: hand_is_done_def current_player_def getitem_def fr current_hand_def)
  with r hs h1 show ?thesis by blast

qed

lemma round_inv_unfinishedI:
  assumes "distinct (players s)" "dealer s < length (players s)"
    "current_player_attr s < length (players s)" "last_picked_up s \<in> set (players s)"
    "\<not> finished s" "r \<in> {1, 2, 3}"
    "\<And>j. j < length (players s) \<Longrightarrow>
       hand_size s j = (if played (dealer s) (current_player_attr s) j then r - 1 else r)"
  shows "round_inv s"

proof -
  from assms(6,7) have "\<exists>r\<in>{1, 2, 3}. \<forall>j<length (players s).
      hand_size s j = (if played (dealer s) (current_player_attr s) j then r - 1 else r)"
    by (intro bexI[of _ r]) blast+
  with assms(1-5) show ?thesis unfolding round_inv_def by presburger

qed

lemma play_turn_returns:
  assumes inv: "round_inv s" and pt: "play_turn s own_card mesa_cards = (None, s')"
  shows "\<exists>s1. \<not> finished s \<and> turn_action s own_card mesa_cards = Inr s1 \<and> round_inv s' \<and>
           players s' = players s \<and> dealer s' = dealer s \<and>
           (hand_is_done s1 = Inr True \<or> hand_is_done s1 = Inr False) \<and>
           hand_size s1 (current_player_attr s) \<le> 2 \<and>
           (if hand_is_done s1 = Inr True \<and> deck s1 \<noteq> []
            then 3 * length (players s) \<le> length (deck s1) \<and>
                 deck s' = drop (3 * length (players s)) (deck s1) \<and>
                 (\<forall>j<length (players s).
                    hand (store s1 (players s ! j)) = [] \<and>
                    hand (store s' (players s ! j)) = take 3 (drop (3 * j) (deck s1)))
            else deck s' = deck s1 \<and>
                 (\<forall>j<length (players s).
                    hand (store s' (players s ! j)) = hand (store s1 (players s ! j))))"

proof -
  let ?ps = "players s" and ?c = "current_player_attr s" and ?d = "dealer s"
  let ?n = "length (players s)"
  let ?tail = "\<lambda>s1.
           (if hand_is_done s1 = Inr True \<and> deck s1 \<noteq> []
            then 3 * length (players s) \<le> length (deck s1) \<and>
                 deck s' = drop (3 * length (players s)) (deck s1) \<and>
                 (\<forall>j<length (players s).
                    hand (store s1 (players s ! j)) = [] \<and>
                    hand (store s' (players s ! j)) = take 3 (drop (3 * j) (deck s1)))
            else deck s' = deck s1 \<and>
                 (\<forall>j<length (players s).
                    hand (store s' (players s ! j)) = hand (store s1 (players s ! j))))"
  from pt have nf: "\<not> finished s" by (auto simp: play_turn_def is_finished_def)
  then have nf': "\<not> is_finished s" by (simp add: is_finished_def)
  from pt nf' obtain s1 where ta: "turn_action s own_card mesa_cards = Inr s1"
    by (cases "turn_action s own_card mesa_cards") (auto simp: play_turn_def)
  from inv have dist: "distinct ?ps" and d: "?d < ?n" and c: "?c < ?n"
    and lp: "last_picked_up s \<in> set ?ps"
    by (simp_all add: round_inv_def)
  from c have "0 < ?n" by arith
  then have cn: "(?c + 1) mod ?n < ?n" by (rule mod_less_divisor)
  from turn_action_frame[OF ta] have fr: "players s1 = ?ps" "dealer s1 = ?d"
    "current_player_attr s1 = ?c" "finished s1 = finished s" "deck s1 = deck s" by simp_all
  from c have cp: "current_player s = Inr (?ps ! ?c)"
    by (simp add: current_player_def getitem_def)
  from turn_action_Inr[OF ta] cp c have lp1: "last_picked_up s1 \<in> set ?ps"
    using lp by (auto split: if_splits)
  from inv_after_action[OF inv nf ta] obtain r where r: "r \<in> {1, 2, 3}"
    and h1: "\<forall>j<?n. hand_size s1 j = (if played ?d ?c j \<or> j = ?c then r - 1 else r)"
    and hd: "hand_is_done s1 = Inr (?c = ?d \<and> r = 1)" by blast
  from h1 c r have le2: "hand_size s1 ?c \<le> 2" by auto
  note pt' = pt[unfolded play_turn_unfinished[OF nf' ta hd]]
  have hd_cases: "hand_is_done s1 = Inr True \<or> hand_is_done s1 = Inr False"
    using hd by auto
  consider (fin) "?c = ?d" "r = 1" "deck s1 = []"
    | (redeal) "?c = ?d" "r = 1" "deck s1 \<noteq> []"
    | (pass) "\<not> (?c = ?d \<and> r = 1)" by blast
  then show ?thesis
  proof cases
    case fin
    with pt' have s': "s' = s1\<lparr>store := (store s1)
                       (last_picked_up s1 := (store s1 (last_picked_up s1))
                          \<lparr>pila := pila (store s1 (last_picked_up s1)) @ [(mesa s1, False)]\<rparr>),
                     finished := True\<rparr>" by simp
    have hands: "hand (store s' p) = hand (store s1 p)" for p by (simp add: s')
    have zero: "hand_size s' j = 0" if "j < ?n" for j
    proof -
      have "hand_size s' j = hand_size s1 j" by (simp add: hand_size_def hands) (simp add: s')
      with h1 that fin show ?thesis by (auto simp: played_dealer_turn)
    qed
    have inv': "round_inv s'"
      unfolding round_inv_def using dist d c lp1 fin zero
      by (simp add: s' fr)
    have ncond: "\<not> (hand_is_done s1 = Inr True \<and> deck s1 \<noteq> [])"
      using fin by simp
    have same: "players s' = ?ps" "dealer s' = ?d" by (simp_all add: s' fr)
    have tail: "?tail s1"
      unfolding if_not_P[OF ncond] using hands by (simp add: s')
    show ?thesis
      by (rule exI[of _ s1], intro conjI) (fact nf ta inv' same hd_cases le2 tail)+
  next
    case redeal
    obtain e2 s2 where run: "deal_hands_loop ?ps s1 = (e2, s2)"
      by (cases "deal_hands_loop ?ps s1")
    from pt' redeal run fr have e2: "e2 = None"
      by (cases e2) auto
    have enough: "3 * ?n \<le> length (deck s1)"
    proof (rule ccontr)
      assume "\<not> 3 * ?n \<le> length (deck s1)"
      then have "length (deck s1) < 3 * ?n" by simp
      from deal_hands_loop_short[OF this] run e2 show False by simp
    qed
    from deal_hands_loop_enough[OF enough dist] run e2
    have dk2: "deck s2 = drop (3 * ?n) (deck s1)"
      and hands2: "\<forall>i<?n. hand (store s2 (?ps ! i)) =
                     hand (store s1 (?ps ! i)) @ take 3 (drop (3 * i) (deck s1))"
      by auto
    from deal_hands_loop_frame[OF run] fr
    have fr2: "players s2 = ?ps" "dealer s2 = ?d" "finished s2 = finished s"
      "last_picked_up s2 = last_picked_up s1" "current_player_attr s2 = ?c" by simp_all
    from pt' redeal run e2 fr have "next_player s2 = (None, s')" by simp
    with fr2 c have s': "s' = s2\<lparr>current_player_attr := (?c + 1) mod ?n\<rparr>"
      by (auto simp: next_player_def split: if_splits)
    have empty1: "hand (store s1 (?ps ! j)) = []" if "j < ?n" for j
    proof -
      from h1 that redeal have "hand_size s1 j = 0" by (auto simp: played_dealer_turn)
      then show ?thesis by (simp add: hand_size_def fr)
    qed
    have hands': "hand (store s' (?ps ! j)) = take 3 (drop (3 * j) (deck s1))"
      if "j < ?n" for j
      using hands2 empty1 that by (simp add: s')
    have three: "hand_size s' j = 3" if "j < ?n" for j
    proof -
      from enough that have "3 * j + 3 \<le> length (deck s1)" by simp
      then show ?thesis using hands'[OF that] by (simp add: hand_size_def s' fr2)
    qed
    have notplayed: "\<not> played ?d ((?c + 1) mod ?n) j" if "j < ?n" for j
      using played_next[OF c d that] redeal by simp
    have inv': "round_inv s'"
    proof (rule round_inv_unfinishedI[where r = 3])
      show "hand_size s' j =
              (if played (dealer s') (current_player_attr s') j then 3 - 1 else 3)"
        if "j < length (players s')" for j
        using three[of j] notplayed[of j] that by (simp add: s' fr2)
    qed (use dist d cn lp1 nf in \<open>simp_all add: s' fr2\<close>)
    have cond: "hand_is_done s1 = Inr True \<and> deck s1 \<noteq> []"
      using redeal hd by simp
    have same: "players s' = ?ps" "dealer s' = ?d" by (simp_all add: s' fr2)
    have "deck s' = drop (3 * ?n) (deck s1)" using dk2 by (simp add: s')
    then have tail: "?tail s1"
      unfolding if_P[OF cond] using enough empty1 hands' by blast
    show ?thesis
      by (rule exI[of _ s1], intro conjI) (fact nf ta inv' same hd_cases le2 tail)+
  next
    case pass
    with pt' have "next_player s1 = (None, s')" by auto
    with fr c have s': "s' = s1\<lparr>current_player_attr := (?c + 1) mod ?n\<rparr>"
      by (auto simp: next_player_def split: if_splits)
    have hs: "hand_size s' j = hand_size s1 j" for j by (simp add: hand_size_def s')
    have "\<exists>r'. r' \<in> {1, 2, 3} \<and> (\<forall>j<?n. hand_size s' j =
            (if played ?d ((?c + 1) mod ?n) j then r' - 1 else r'))"
    proof (cases "?c = ?d")
      case True
      with pass r have r2: "r - 1 \<in> {1, 2, 3}" by auto
      have "hand_size s' j = (if played ?d ((?c + 1) mod ?n) j then (r - 1) - 1 else r - 1)"
        if "j < ?n" for j
        using h1 that True played_next[OF c d that] by (auto simp: hs played_dealer_turn)
      with r2 show ?thesis by blast
    next
      case False
      have "hand_size s' j = (if played ?d ((?c + 1) mod ?n) j then r - 1 else r)"
        if "j < ?n" for j
        using h1 that False played_next[OF c d that] by (auto simp: hs)
      with r show ?thesis by blast
    qed
    then obtain r' where r': "r' \<in> {1, 2, 3}"
      and hs': "\<forall>j<?n. hand_size s' j =
                 (if played ?d ((?c + 1) mod ?n) j then r' - 1 else r')" by blast
    have inv': "round_inv s'"
    proof (rule round_inv_unfinishedI[where r = r'])
      show "hand_size s' j =
              (if played (dealer s') (current_player_attr s') j then r' - 1 else r')"
        if "j < length (players s')" for j
        using hs' that by (simp add: s' fr)
    qed (use dist d cn lp1 nf r' in \<open>simp_all add: s' fr\<close>)
    have ncond: "\<not> (hand_is_done s1 = Inr True \<and> deck s1 \<noteq> [])"
      using pass hd by auto
    have same: "players s' = ?ps" "dealer s' = ?d" by (simp_all add: s' fr)
    have tail: "?tail s1"
      unfolding if_not_P[OF ncond] by (simp add: s')
    show ?thesis
      by (rule exI[of _ s1], intro conjI) (fact nf ta inv' same hd_cases le2 tail)+
  qed

qed

lemma Ronda_init_hands:
  assumes init: "Ronda_init st ps d dk = Inr s" and dist: "distinct ps"
  shows "players s = ps \<and> 4 + 3 * length ps \<le> length dk \<and>
         deck s = drop (4 + 3 * length ps) dk \<and> \<not> finished s \<and> last_picked_up s = d \<and>
         list_index ps d = Inr (dealer s) \<and>
         current_player_attr s = (dealer s + 1) mod length ps \<and>
         (\<forall>j<length ps. hand (store s (ps ! j)) =
                          hand (st (ps ! j)) @ take 3 (drop (4 + 3 * j) dk))"

proof -
  from Ronda_init_Inr[OF init] obtain di s2 where di: "list_index ps d = Inr di"
    and len: "4 \<le> length dk"
    and run: "deal_hands_loop ps (opening_deal st ps d di dk) = (None, s2)"
    and s: "s = s2\<lparr>current_player_attr := (di + 1) mod length ps\<rparr>" by blast
  let ?o = "opening_deal st ps d di dk"
  have enough: "3 * length ps \<le> length (deck ?o)"
  proof (rule ccontr)
    assume "\<not> 3 * length ps \<le> length (deck ?o)"
    then have "length (deck ?o) < 3 * length ps" by simp
    from deal_hands_loop_short[OF this] run show False by simp
  qed
  from deal_hands_loop_enough[OF enough dist] run
  have dk2: "deck s2 = drop (3 * length ps) (deck ?o)"
    and hands2: "\<forall>i<length ps. hand (store s2 (ps ! i)) =
                   hand (store ?o (ps ! i)) @ take 3 (drop (3 * i) (deck ?o))"
    by auto
  from deal_hands_loop_frame[OF run]
  have fr: "players s2 = ps" "dealer s2 = di" "finished s2 = False" "last_picked_up s2 = d"
    by (simp_all add: opening_deal_def)
  have ho: "hand (store ?o p) = hand (st p)" for p by (simp add: opening_deal_def)
  have do: "deck ?o = drop 4 dk" by (simp add: opening_deal_def)
  from enough len have 1: "4 + 3 * length ps \<le> length dk" by (simp add: do)
  from dk2 have 2: "deck s = drop (4 + 3 * length ps) dk"
    by (simp add: s do add.commute)
  have 3: "hand (store s (ps ! j)) = hand (st (ps ! j)) @ take 3 (drop (4 + 3 * j) dk)"
    if "j < length ps" for j
    using hands2 that by (simp add: s ho do add.commute)
  from 1 2 3 di fr show ?thesis by (simp add: s)

qed

lemma round_inv_init:
  assumes init: "Ronda_init st ps d dk = Inr s" and dist: "distinct ps"
    and fresh: "fresh_players st ps"
  shows "round_inv s"

proof -
  note h = Ronda_init_hands[OF init dist]
  from h have di: "list_index ps d = Inr (dealer s)" by simp
  from list_index_Inr[OF di] have dlt: "dealer s < length ps" and nth: "ps ! dealer s = d"
    by simp_all
  then have "0 < length ps" by arith
  then have cn: "(dealer s + 1) mod length ps < length ps" by (rule mod_less_divisor)
  from dlt nth have mem: "d \<in> set ps" by (metis nth_mem)
  show ?thesis
  proof (rule round_inv_unfinishedI[where r = 3])
    show "hand_size s j = (if played (dealer s) (current_player_attr s) j then 3 - 1 else 3)"
      if j: "j < length (players s)" for j
    proof -
      from j h have jl: "j < length ps" by simp
      then have "ps ! j \<in> set ps" by simp
      with fresh have e: "hand (st (ps ! j)) = []" by (simp add: fresh_players_def)
      from h have "4 + 3 * length ps \<le> length dk" by simp
      with jl have "3 * j + 3 \<le> length dk - 4" by arith
      with h jl e have "hand_size s j = 3" by (simp add: hand_size_def)
      moreover from played_next[OF dlt dlt jl] h
      have "\<not> played (dealer s) (current_player_attr s) j" by simp
      ultimately show ?thesis by simp
    qed
  qed (use h dist dlt cn mem in simp_all)

qed

lemma round_inv_play_turns:
  "round_inv s \<Longrightarrow> play_turns s calls = Inr s' \<Longrightarrow> round_inv s'"

proof (induction calls arbitrary: s)
  case Nil
  then show ?case by simp

next
  case (Cons call rest)
  obtain own_card mesa_cards where call: "call = (own_card, mesa_cards)" by (cases call)
  obtain e t where pt: "play_turn s own_card mesa_cards = (e, t)"
    by (cases "play_turn s own_card mesa_cards")
  from Cons.prems(2) call pt have e: "e = None" and rest: "play_turns t rest = Inr s'"
    by (cases e; simp)+
  from play_turn_returns[OF Cons.prems(1) pt[unfolded e]] have "round_inv t" by blast
  from Cons.IH[OF this rest] show ?case .

qed

lemma round_inv_ronda_after:
  assumes "ronda_after st ps d dk calls = Inr s" "distinct ps" "fresh_players st ps"
  shows "round_inv s"

proof -
  from assms(1) obtain s0 where init: "Ronda_init st ps d dk = Inr s0"
    and run: "play_turns s0 calls = Inr s"
    by (auto simp: ronda_after_def split: sum.splits)
  from round_inv_play_turns[OF round_inv_init[OF init assms(2,3)] run] show ?thesis .

qed

subsection \<open>Counting the cards\<close>

lemma sum_list_map_upd:
  fixes f :: "'b \<Rightarrow> nat"
  assumes "distinct ps" "p \<in> set ps"
  shows "sum_list (map (\<lambda>q. f ((st(p := v)) q)) ps) + f (st p) =
         sum_list (map (\<lambda>q. f (st q)) ps) + f v"
  using assms

proof (induction ps)
  case Nil
  then show ?case by simp

next
  case (Cons x xs)
  show ?case
  proof (cases "x = p")
    case True
    with Cons.prems have "p \<notin> set xs" by simp
    then have "map (\<lambda>q. f ((st(p := v)) q)) xs = map (\<lambda>q. f (st q)) xs" by auto
    then have "sum_list (map (\<lambda>q. f ((st(p := v)) q)) xs) = sum_list (map (\<lambda>q. f (st q)) xs)"
      by (rule arg_cong)
    with True show ?thesis by simp
  next
    case False
    with Cons.prems have "distinct xs" "p \<in> set xs" by simp_all
    from Cons.IH[OF this] False show ?thesis by simp
  qed

qed

lemma take_from_mesa_length:
  "on_mesa m cs \<Longrightarrow> length (take_from_mesa m cs) + length cs = length m"

proof (induction cs arbitrary: m)
  case Nil
  then show ?case by simp

next
  case (Cons c cs)
  then have c: "c \<in> set m" and rest: "on_mesa (remove1 c m) cs" by simp_all
  from Cons.IH[OF rest] c show ?case
    by (simp add: length_remove1) (metis One_nat_def Suc_pred length_pos_if_in_set)

qed

lemma total_cards_store_upd:
  assumes "distinct (players s)" "p \<in> set (players s)"
  shows "total_cards (s\<lparr>store := (store s)(p := v)\<rparr>) + length (hand (store s p)) +
           pila_size (pila (store s p)) =
         total_cards s + length (hand v) + pila_size (pila v)"
  using sum_list_map_upd[OF assms, of "\<lambda>x. length (hand x)" "store s" v]
    sum_list_map_upd[OF assms, of "\<lambda>x. pila_size (pila x)" "store s" v]
  by (simp add: total_cards_def)

lemma total_cards_turn_action:
  assumes dist: "distinct (players s)" and c: "current_player_attr s < length (players s)"
    and ta: "turn_action s own_card mesa_cards = Inr s1"
  shows "total_cards s1 = total_cards s"

proof -
  let ?p = "players s ! current_player_attr s"
  from c have cp: "current_player s = Inr ?p" by (simp add: current_player_def getitem_def)
  from c have mem: "?p \<in> set (players s)" by simp
  from turn_action_Inr[OF ta] cp
  have own: "own_card \<in> set (hand (store s ?p))"
    and hand1: "hand (store s1 ?p) = remove1 own_card (hand (store s ?p))"
    and others: "\<forall>q. q \<noteq> ?p \<longrightarrow> store s1 q = store s q"
    and act: "if mesa_cards = Some [] \<or> mesa_cards = None
              then mesa s1 = mesa s @ [own_card] \<and> pila (store s1 ?p) = pila (store s ?p)
              else on_mesa (mesa s) (selection mesa_cards) \<and>
                   mesa s1 = take_from_mesa (mesa s) (selection mesa_cards) \<and>
                   pila (store s1 ?p) =
                     pila (store s ?p) @ [(own_card # selection mesa_cards, False)]"
    by (auto split: if_splits)
  from turn_action_frame[OF ta] have fr: "players s1 = players s" "deck s1 = deck s"
    by simp_all
  have st1: "store s1 = (store s)(?p := store s1 ?p)"
    using others by (auto simp: fun_eq_iff)
  define L where "L = length (hand (store s ?p))"
  define P where "P = pila_size (pila (store s ?p))"
  define HS where "HS = sum_list (map (\<lambda>q. length (hand (store s q))) (players s))"
  define PS where "PS = sum_list (map (\<lambda>q. pila_size (pila (store s q))) (players s))"
  define HS1 where "HS1 = sum_list (map (\<lambda>q. length (hand (store s1 q))) (players s))"
  define PS1 where "PS1 = sum_list (map (\<lambda>q. pila_size (pila (store s1 q))) (players s))"
  from own have Lpos: "0 < L" unfolding L_def by (rule length_pos_if_in_set)
  have h: "HS1 + L = HS + length (hand (store s1 ?p))"
    unfolding HS1_def HS_def L_def
    using sum_list_map_upd[OF dist mem, of "\<lambda>x. length (hand x)" "store s" "store s1 ?p"]
    by (simp only: st1[symmetric])
  have pl: "PS1 + P = PS + pila_size (pila (store s1 ?p))"
    unfolding PS1_def PS_def P_def
    using sum_list_map_upd[OF dist mem, of "\<lambda>x. pila_size (pila x)" "store s" "store s1 ?p"]
    by (simp only: st1[symmetric])
  from hand1 own have l1: "length (hand (store s1 ?p)) = L - 1"
    by (simp add: L_def length_remove1)
  have tot: "total_cards s = length (deck s) + HS + length (mesa s) + PS"
    and tot1: "total_cards s1 = length (deck s) + HS1 + length (mesa s1) + PS1"
    by (simp_all add: total_cards_def HS_def PS_def HS1_def PS1_def fr)
  show ?thesis
  proof (cases "mesa_cards = Some [] \<or> mesa_cards = None")
    case True
    with act have "length (mesa s1) = length (mesa s) + 1"
      and "pila_size (pila (store s1 ?p)) = P" by (simp_all add: P_def)
    with h pl l1 Lpos tot tot1 show ?thesis by arith
  next
    case False
    with act have onm: "on_mesa (mesa s) (selection mesa_cards)"
      and m1: "mesa s1 = take_from_mesa (mesa s) (selection mesa_cards)"
      and p1: "pila (store s1 ?p) =
                 pila (store s ?p) @ [(own_card # selection mesa_cards, False)]"
      by simp_all
    from take_from_mesa_length[OF onm] m1
    have "length (mesa s1) + length (selection mesa_cards) = length (mesa s)" by simp
    moreover from p1 have "pila_size (pila (store s1 ?p)) = P + 1 + length (selection mesa_cards)"
      by (simp add: P_def pila_size_def)
    ultimately show ?thesis using h pl l1 Lpos tot tot1 by arith
  qed

qed

lemma total_cards_deal_hands_loop:
  assumes "distinct (players s)" "set ps \<subseteq> set (players s)"
  shows "total_cards (snd (deal_hands_loop ps s)) = total_cards s"
  using assms

proof (induction ps arbitrary: s)
  case Nil
  then show ?case by simp

next
  case (Cons plyr rest)
  show ?case
  proof (cases "length (deck s) < 3")
    case True
    then show ?thesis by (simp add: deal_def)
  next
    case False
    let ?v = "pick_up_hand (take 3 (deck s)) (store s plyr)"
    let ?s1 = "s\<lparr>deck := drop 3 (deck s), store := (store s)(plyr := ?v)\<rparr>"
    from Cons.prems have mem: "plyr \<in> set (players s)" by simp
    from Cons.prems have "distinct (players ?s1)" "set rest \<subseteq> set (players ?s1)" by simp_all
    from Cons.IH[OF this] False
    have "total_cards (snd (deal_hands_loop (plyr # rest) s)) = total_cards ?s1"
      by (simp add: deal_def)
    also have "\<dots> = total_cards s"
      using sum_list_map_upd[OF Cons.prems(1) mem, of "\<lambda>x. length (hand x)" "store s" ?v]
        sum_list_map_upd[OF Cons.prems(1) mem, of "\<lambda>x. pila_size (pila x)" "store s" ?v]
        False
      by (simp add: total_cards_def pick_up_hand_def)
    finally show ?thesis .
  qed

qed

lemma total_cards_play_turn:
  assumes inv: "round_inv s" and pt: "play_turn s own_card mesa_cards = (None, s')"
  shows "total_cards s' = total_cards s + (if finished s' then length (mesa s') else 0)"

proof -
  from pt have nf: "\<not> is_finished s" by (auto simp: play_turn_def)
  from pt nf obtain s1 where ta: "turn_action s own_card mesa_cards = Inr s1"
    by (cases "turn_action s own_card mesa_cards") (auto simp: play_turn_def)
  from pt nf ta obtain b where hd: "hand_is_done s1 = Inr b"
    by (cases "hand_is_done s1") (auto simp: play_turn_def)
  from inv have dist: "distinct (players s)"
    and c: "current_player_attr s < length (players s)"
    and lp: "last_picked_up s \<in> set (players s)" by (simp_all add: round_inv_def)
  from turn_action_frame[OF ta] have fr: "players s1 = players s" "finished s1 = finished s"
    by simp_all
  from c have cp: "current_player s = Inr (players s ! current_player_attr s)"
    by (simp add: current_player_def getitem_def)
  from turn_action_Inr[OF ta] cp c lp have lp1: "last_picked_up s1 \<in> set (players s1)"
    by (auto simp: fr split: if_splits)
  from total_cards_turn_action[OF dist c ta] have t1: "total_cards s1 = total_cards s" .
  from dist fr have dist1: "distinct (players s1)" by simp
  note pt' = pt[unfolded play_turn_unfinished[OF nf ta hd]]
  have np: "total_cards t' = total_cards t \<and> finished t' = finished t"
    if "next_player t = (None, t')" for t t'
    using that by (auto simp: next_player_def total_cards_def split: if_splits)
  consider (fin) "b" "deck s1 = []" | (redeal) "b" "deck s1 \<noteq> []" | (pass) "\<not> b" by blast
  then show ?thesis
  proof cases
    case fin
    let ?lp = "last_picked_up s1"
    let ?v = "(store s1 ?lp)\<lparr>pila := pila (store s1 ?lp) @ [(mesa s1, False)]\<rparr>"
    from pt' fin have s': "s' = s1\<lparr>store := (store s1)(?lp := ?v), finished := True\<rparr>" by simp
    from sum_list_map_upd[OF dist1 lp1, of "\<lambda>x. length (hand x)" "store s1" ?v]
      sum_list_map_upd[OF dist1 lp1, of "\<lambda>x. pila_size (pila x)" "store s1" ?v]
    have "total_cards s' = total_cards s1 + length (mesa s1)"
      by (simp add: total_cards_def s' pila_size_def)
    with t1 show ?thesis by (simp add: s')
  next
    case redeal
    obtain e2 s2 where run: "deal_hands_loop (players s1) s1 = (e2, s2)"
      by (cases "deal_hands_loop (players s1) s1")
    from pt' redeal run have e2: "e2 = None" and nx: "next_player s2 = (None, s')"
      by (cases e2; simp)+
    from total_cards_deal_hands_loop[OF dist1 subset_refl] run
    have t2: "total_cards s2 = total_cards s1" by simp
    from deal_hands_loop_frame[OF run] fr nf have "\<not> finished s2" by (simp add: is_finished_def)
    with np[OF nx] t2 t1 show ?thesis by simp
  next
    case pass
    with pt' have nx: "next_player s1 = (None, s')" by simp
    from fr nf have "\<not> finished s1" by (simp add: is_finished_def)
    with np[OF nx] t1 show ?thesis by simp
  qed

qed

lemma total_cards_opening_deal:
  assumes di: "list_index ps d = Inr di" and len: "4 \<le> length dk"
    and dist: "distinct ps" and fresh: "fresh_players st ps"
  shows "total_cards (opening_deal st ps d di dk) = length dk"

proof -
  from list_index_Inr[OF di] have mem: "d \<in> set ps" by (metis nth_mem)
  from fresh have h0: "sum_list (map (\<lambda>p. length (hand (st p))) ps) = 0"
    and p0: "sum_list (map (\<lambda>p. pila_size (pila (st p))) ps) = 0"
    by (simp_all add: fresh_players_def pila_size_def)
  from fresh mem have pd: "pila_size (pila (st d)) = 0"
    by (simp add: fresh_players_def pila_size_def)
  let ?v = "(st d)\<lparr>pila := pila_add (take 4 dk) True (pila (st d))\<rparr>"
  show ?thesis
  proof (cases "sum_list (map fst (take 4 dk)) = 15")
    case True
    from sum_list_map_upd[OF dist mem, of "\<lambda>x. length (hand x)" st ?v] h0
    have h: "sum_list (map (\<lambda>q. length (hand ((st(d := ?v)) q))) ps) = 0" by simp
    from sum_list_map_upd[OF dist mem, of "\<lambda>x. pila_size (pila x)" st ?v] p0 pd len
    have p: "sum_list (map (\<lambda>q. pila_size (pila ((st(d := ?v)) q))) ps) = 4"
      by (simp add: pila_add_def pila_size_def)
    from True len h p show ?thesis
      by (simp add: total_cards_def opening_deal_def)
  next
    case False
    with len h0 p0 show ?thesis by (simp add: total_cards_def opening_deal_def)
  qed

qed

lemma total_cards_init:
  assumes init: "Ronda_init st ps d dk = Inr s" and dist: "distinct ps"
    and fresh: "fresh_players st ps"
  shows "total_cards s = length dk"

proof -
  from Ronda_init_Inr[OF init] obtain di s2 where di: "list_index ps d = Inr di"
    and len: "4 \<le> length dk"
    and run: "deal_hands_loop ps (opening_deal st ps d di dk) = (None, s2)"
    and s: "s = s2\<lparr>current_player_attr := (di + 1) mod length ps\<rparr>" by blast
  let ?o = "opening_deal st ps d di dk"
  have po: "players ?o = ps" by (simp add: opening_deal_def)
  from dist po have "distinct (players ?o)" "set ps \<subseteq> set (players ?o)" by simp_all
  from total_cards_deal_hands_loop[OF this] run have "total_cards s2 = total_cards ?o" by simp
  with total_cards_opening_deal[OF di len dist fresh] show ?thesis
    by (simp add: s total_cards_def)

qed

lemma play_turns_finished: "finished s \<Longrightarrow> play_turns s calls = Inr s' \<Longrightarrow> s' = s"
  by (cases calls) (auto simp: play_turn_def is_finished_def)

lemma total_cards_play_turns:
  "round_inv s \<Longrightarrow> \<not> finished s \<Longrightarrow> play_turns s calls = Inr s' \<Longrightarrow>
     total_cards s' = total_cards s + (if finished s' then length (mesa s') else 0)"

proof (induction calls arbitrary: s)
  case Nil
  then show ?case by simp

next
  case (Cons call rest)
  obtain own_card mesa_cards where call: "call = (own_card, mesa_cards)" by (cases call)
  obtain e t where pt: "play_turn s own_card mesa_cards = (e, t)"
    by (cases "play_turn s own_card mesa_cards")
  from Cons.prems(3) call pt have e: "e = None" and rest: "play_turns t rest = Inr s'"
    by (cases e; simp)+
  note pt' = pt[unfolded e]
  from play_turn_returns[OF Cons.prems(1) pt'] have invt: "round_inv t" by blast
  note step = total_cards_play_turn[OF Cons.prems(1) pt']
  show ?case
  proof (cases "finished t")
    case True
    from play_turns_finished[OF True rest] step True show ?thesis by simp
  next
    case False
    from Cons.IH[OF invt False rest] step False show ?thesis by simp
  qed

qed

lemma total_cards_ronda_after:
  assumes run: "ronda_after st ps d dk calls = Inr s" and dist: "distinct ps"
    and fresh: "fresh_players st ps"
  shows "total_cards s = length dk + (if finished s then length (mesa s) else 0)"

proof -
  from run obtain s0 where init: "Ronda_init st ps d dk = Inr s0"
    and calls: "play_turns s0 calls = Inr s"
    by (auto simp: ronda_after_def split: sum.splits)
  from Ronda_init_hands[OF init dist] have nf: "\<not> finished s0" by simp
  from total_cards_play_turns[OF round_inv_init[OF init dist fresh] nf calls]
    total_cards_init[OF init dist fresh]
  show ?thesis by simp

qed

lemma on_mesa_subset: "on_mesa m cs \<Longrightarrow> set cs \<subseteq> set m"

proof (induction cs arbitrary: m)
  case Nil
  then show ?case by simp

next
  case (Cons c cs)
  then have c: "c \<in> set m" and rest: "on_mesa (remove1 c m) cs" by simp_all
  from Cons.IH[OF rest] have "set cs \<subseteq> set (remove1 c m)" .
  also have "\<dots> \<subseteq> set m" by (rule set_remove1_subset)
  finally show ?case using c by simp

qed

subsection \<open>The current player index\<close>

lemma play_turn_frame:
  assumes pt: "play_turn s own_card mesa_cards = (e, s')"
  shows "players s' = players s \<and> dealer s' = dealer s \<and>
         dealt_escoba_attr s' = dealt_escoba_attr s \<and>
         (finished s \<longrightarrow> finished s') \<and>
         (current_player_attr s' = current_player_attr s \<or>
          players s \<noteq> [] \<and>
          current_player_attr s' = (current_player_attr s + 1) mod length (players s)) \<and>
         (finished s' \<and> \<not> finished s \<longrightarrow>
            current_player_attr s' = current_player_attr s \<and>
            current_player s' = getitem (players s) (dealer s)) \<and>
         last_picked_up s' =
           (case turn_action s own_card mesa_cards of
              Inl x \<Rightarrow> last_picked_up s
            | Inr s1 \<Rightarrow> if finished s then last_picked_up s else last_picked_up s1)"

proof (cases "is_finished s")
  case True
  with pt have "s' = s" by (simp add: play_turn_def)
  with True show ?thesis by (simp add: is_finished_def split: sum.splits)

next
  case nf: False
  then have nf': "\<not> finished s" by (simp add: is_finished_def)
  show ?thesis
  proof (cases "turn_action s own_card mesa_cards")
    case (Inl x)
    with pt nf have "s' = s" by (simp add: play_turn_def)
    with Inl show ?thesis by simp
  next
    case (Inr s1)
    note fr = turn_action_frame[OF Inr]
    show ?thesis
    proof (cases "hand_is_done s1")
      case (Inl x)
      with pt nf Inr have "s' = s1" by (simp add: play_turn_def)
      with fr Inr nf' show ?thesis by simp
    next
      case hd: (Inr b)
      note pt' = pt[unfolded play_turn_unfinished[OF nf Inr hd]]
      have np: "players t' = players t \<and> dealer t' = dealer t \<and>
                dealt_escoba_attr t' = dealt_escoba_attr t \<and> finished t' = finished t \<and>
                last_picked_up t' = last_picked_up t \<and>
                (current_player_attr t' = current_player_attr t \<or>
                 players t \<noteq> [] \<and>
                 current_player_attr t' = (current_player_attr t + 1) mod length (players t))"
        if "next_player t = (x, t')" for t t' x
        using that by (auto simp: next_player_def split: if_splits)
      consider (fin) "b" "deck s1 = []" | (redeal) "b" "deck s1 \<noteq> []" | (pass) "\<not> b"
        by blast
      then show ?thesis
      proof cases
        case fin
        with pt' have s': "s' = s1\<lparr>store := (store s1)
                       (last_picked_up s1 := (store s1 (last_picked_up s1))
                          \<lparr>pila := pila (store s1 (last_picked_up s1)) @ [(mesa s1, False)]\<rparr>),
                     finished := True\<rparr>" by simp
        from hd fin have "current_player s1 = getitem (players s1) (dealer s1)"
          by (auto simp: hand_is_done_def split: sum.splits)
        then have "current_player s' = getitem (players s) (dealer s)"
          by (simp add: current_player_def s' fr)
        with fr Inr nf' show ?thesis by (simp add: s')
      next
        case redeal
        obtain e2 s2 where run: "deal_hands_loop (players s1) s1 = (e2, s2)"
          by (cases "deal_hands_loop (players s1) s1")
        note fr2 = deal_hands_loop_frame[OF run]
        show ?thesis
        proof (cases e2)
          case None
          with pt' redeal run have "next_player s2 = (e, s')" by simp
          from np[OF this] fr fr2 Inr nf' show ?thesis by simp
        next
          case (Some x)
          with pt' redeal run have "s' = s2" by simp
          with fr fr2 Inr nf' show ?thesis by simp
        qed
      next
        case pass
        with pt' have "next_player s1 = (e, s')" by simp
        from np[OF this] fr Inr nf' show ?thesis by simp
      qed
    qed
  qed

qed

lemma index_inv_init: "Ronda_init st ps d dk = Inr s \<Longrightarrow> index_inv d s"

proof -
  assume init: "Ronda_init st ps d dk = Inr s"
  from Ronda_init_Inr[OF init] obtain di s2 where di: "list_index ps d = Inr di"
    and run: "deal_hands_loop ps (opening_deal st ps d di dk) = (None, s2)"
    and s: "s = s2\<lparr>current_player_attr := (di + 1) mod length ps\<rparr>" by blast
  from list_index_Inr[OF di] have lt: "di < length ps" and nth: "ps ! di = d" by simp_all
  then have "0 < length ps" by arith
  then have cn: "(di + 1) mod length ps < length ps" by (rule mod_less_divisor)
  from deal_hands_loop_frame[OF run]
  have "players s2 = ps" "dealer s2 = di" "\<not> finished s2" by (simp_all add: opening_deal_def)
  with lt nth cn show ?thesis by (simp add: index_inv_def s getitem_def)

qed

lemma index_inv_play_turn:
  assumes inv: "index_inv d s" and pt: "play_turn s own_card mesa_cards = (e, s')"
  shows "index_inv d s'"

proof -
  note fr = play_turn_frame[OF pt]
  from inv have c: "current_player_attr s < length (players s)"
    and dl: "getitem (players s) (dealer s) = Inr d" by (simp_all add: index_inv_def)
  from c have "0 < length (players s)" by arith
  then have m: "(current_player_attr s + 1) mod length (players s) < length (players s)"
    by (rule mod_less_divisor)
  from fr have ps: "players s' = players s"
    and step: "current_player_attr s' = current_player_attr s \<or>
               current_player_attr s' = (current_player_attr s + 1) mod length (players s)"
    by blast+
  from step c m have c': "current_player_attr s' < length (players s')"
    unfolding ps by (elim disjE) (simp_all only:)
  have "current_player s' = Inr d" if f': "finished s'"
  proof (cases "finished s")
    case True
    with pt have "s' = s" by (simp add: play_turn_def is_finished_def)
    with inv True show ?thesis by (simp add: index_inv_def)
  next
    case False
    with fr f' dl show ?thesis by simp
  qed
  with c' dl fr show ?thesis by (simp add: index_inv_def)

qed

lemma index_inv_play_turns:
  "index_inv d s \<Longrightarrow> play_turns s calls = Inr s' \<Longrightarrow> index_inv d s'"

proof (induction calls arbitrary: s)
  case Nil
  then show ?case by simp

next
  case (Cons call rest)
  obtain own_card mesa_cards where call: "call = (own_card, mesa_cards)" by (cases call)
  obtain e t where pt: "play_turn s own_card mesa_cards = (e, t)"
    by (cases "play_turn s own_card mesa_cards")
  from Cons.prems(2) call pt have rest: "play_turns t rest = Inr s'"
    by (cases e) simp_all
  from Cons.IH[OF index_inv_play_turn[OF Cons.prems(1) pt] rest] show ?case .

qed

subsection \<open>The sample rounds are reached\<close>

lemmas ronda_eval = ronda_after_def Ronda_init_def deal_def getitem_def current_mesa_def
  deal_hands_def pick_up_hand_def next_player_def play_turn_def turn_action_def
  hand_is_done_def current_player_def current_hand_def is_finished_def cards_def
  place_card_on_mesa_def pick_up_from_mesa_def pila_add_def new_players_def Let_def
  dealt_escoba_def

lemmas sample_defs = deck10_def deck11_def deck16_def escoba_deck_def calls5_def sweep5_def
  opened_def last_turn_def last_action_def finished_round_def sweep_turn_def sweep_action_def
  escoba_opened_def redealt_def

lemma opened_reached: "Ronda_init new_players [0, 1] 0 deck10 = Inr opened"
  by (simp add: ronda_eval sample_defs fun_eq_iff)

lemma last_turn_reached:
  "ronda_after new_players [0, 1] 0 deck10 calls5 = Inr (last_turn [])"
  "ronda_after new_players [0, 1] 0 deck11 calls5 = Inr (last_turn [(9, ''e'')])"
  "ronda_after new_players [0, 1] 0 deck16 calls5 =
     Inr (last_turn [(4, ''c''), (5, ''c''), (6, ''c''), (7, ''c''), (1, ''e''), (2, ''e'')])"
  by (simp_all add: ronda_eval sample_defs fun_eq_iff)

lemma last_action_reached: "turn_action (last_turn dk) (7, ''o'') None = Inr (last_action dk)"
  by (simp add: ronda_eval sample_defs fun_eq_iff)

lemma finished_round_reached:
  "play_turn (last_turn []) (7, ''o'') None = (None, finished_round)"
  by (simp add: ronda_eval sample_defs fun_eq_iff)

lemma sweep_reached:
  "ronda_after new_players [0, 1] 0 deck10 sweep5 = Inr sweep_turn"
  "turn_action sweep_turn (7, ''o'') (Some [(3, ''c'')]) = Inr sweep_action"
  by (simp_all add: ronda_eval sample_defs fun_eq_iff)

lemma escoba_opened_reached: "Ronda_init new_players [0, 1] 0 escoba_deck = Inr escoba_opened"
  by (simp add: ronda_eval sample_defs fun_eq_iff)

lemma redealt_reached:
  "play_turn (last_turn [(4, ''c''), (5, ''c''), (6, ''c''), (7, ''c''), (1, ''e''), (2, ''e'')])
     (7, ''o'') None = (None, redealt)"
  by (simp add: ronda_eval sample_defs fun_eq_iff)

subsection \<open>Card conservation\<close>

text \<open>
  Until the round finishes the cards are conserved: for a round built from distinct
  players with empty hands and piles, after any sequence of calls that return, the deck,
  the hands, the mesa and the piles together hold as many cards as the initial deck. The
  call that finishes the round copies the mesa into a pile and leaves the mesa as it is,
  so from then on the sum exceeds the deck by the cards left on the mesa.
\<close>

lemma conservation_until_finish:
  assumes "ronda_after st ps d dk calls = Inr s" and "distinct ps" and "fresh_players st ps"
  shows "total_cards s = length dk + (if is_finished s then length (current_mesa s) else 0)"
  using total_cards_ronda_after[OF assms] by (simp add: is_finished_def current_mesa_def)

text \<open>
  C1, card conservation at every observation point, the state right after the round
  finishes included. The code breaks it there: two new players, a deck of 10 cards, six
  calls that return; the round is finished, the mesa still holds its 8 cards, the last
  picker's pile holds them too, and the sum is 18, not 10.
\<close>

theorem conservation_broken_at_finish:
  "ronda_after new_players [0, 1] 0 deck10 (calls5 @ [((7, ''o''), None)]) = Inr finished_round \<and>
   is_finished finished_round \<and> length deck10 = 10 \<and> total_cards finished_round = 18 \<and>
   length (current_mesa finished_round) = 8"
  by (simp add: ronda_eval sample_defs fun_eq_iff total_cards_def pila_size_def)

subsection \<open>The end of the round\<close>

text \<open>
  C2, termination: when a call of \<^verbatim>\<open>play_turn\<close> on an unfinished round leaves the dealer,
  as current player, with an empty hand while the deck is empty, the call returns, the
  round is finished, the pile of the last picker (as the action leaves it) gains exactly
  the cards on the mesa after the action as one capture, nothing else in the store
  changes, and the current player is not advanced. The mesa may hold any number of cards,
  none included.
\<close>

theorem round_terminates:
  assumes "\<not> is_finished s" and "turn_action s own_card mesa_cards = Inr s1"
    and "current_player s1 = Inr p" and "getitem (players s1) (dealer s1) = Inr p"
    and "current_hand (store s1 p) = []" and "cards (deck s1) = []"
  shows "fst (play_turn s own_card mesa_cards) = None \<and>
         is_finished (snd (play_turn s own_card mesa_cards)) \<and>
         store (snd (play_turn s own_card mesa_cards)) =
           (store s1)(last_picked_up s1 := (store s1 (last_picked_up s1))
              \<lparr>pila := pila (store s1 (last_picked_up s1)) @ [(current_mesa s1, False)]\<rparr>) \<and>
         last_picked_up (snd (play_turn s own_card mesa_cards)) = last_picked_up s1 \<and>
         current_player_attr (snd (play_turn s own_card mesa_cards)) = current_player_attr s"

proof -
  from assms(3-5) have hd: "hand_is_done s1 = Inr True" by (simp add: hand_is_done_def)
  from assms(6) have dk: "deck s1 = []" by (simp add: cards_def)
  from turn_action_frame[OF assms(2)] have "current_player_attr s1 = current_player_attr s"
    by simp
  with dk show ?thesis
    by (simp add: play_turn_unfinished[OF assms(1,2) hd] is_finished_def current_mesa_def)

qed

theorem round_terminates_witness:
  "\<not> is_finished (last_turn []) \<and>
   turn_action (last_turn []) (7, ''o'') None = Inr (last_action []) \<and>
   current_player (last_action []) = Inr 0 \<and>
   getitem (players (last_action [])) (dealer (last_action [])) = Inr 0 \<and>
   current_hand (store (last_action []) 0) = [] \<and> cards (deck (last_action [])) = [] \<and>
   is_finished (snd (play_turn (last_turn []) (7, ''o'') None)) \<and>
   pila (store (snd (play_turn (last_turn []) (7, ''o'') None)) 0) =
     [([(5, ''o''), (4, ''o'')], False),
      ([(1, ''o''), (2, ''o''), (3, ''o''), (1, ''c''), (2, ''c''), (6, ''o''), (3, ''c''),
        (7, ''o'')], False)] \<and>
   current_player_attr (snd (play_turn (last_turn []) (7, ''o'') None)) = 0"

proof -
  have h: "\<not> is_finished (last_turn [])" "current_player (last_action []) = Inr 0"
    "getitem (players (last_action [])) (dealer (last_action [])) = Inr 0"
    "current_hand (store (last_action []) 0) = []" "cards (deck (last_action [])) = []"
    by (simp_all add: ronda_eval sample_defs)
  from round_terminates[OF h(1) last_action_reached h(2-5)] h last_action_reached
  show ?thesis by (simp add: sample_defs current_mesa_def)

qed

text \<open>The same with a mesa that the last capture has emptied: the pile gains a capture of no cards.\<close>

lemma finish_with_empty_mesa:
  "current_mesa sweep_action = [] \<and>
   is_finished (snd (play_turn sweep_turn (7, ''o'') (Some [(3, ''c'')]))) \<and>
   pila (store (snd (play_turn sweep_turn (7, ''o'') (Some [(3, ''c'')]))) 0) =
     pila (store sweep_action 0) @ [([], False)]"
  by (simp add: ronda_eval sample_defs)

text \<open>
  C3, the guard after the finish: on a finished round every call of \<^verbatim>\<open>play_turn\<close>
  raises RondaFinishedError and leaves the whole object, the players' hands and piles
  included, as it was; so a round that is finished stays finished.
\<close>

theorem play_turn_after_finish:
  "is_finished s \<Longrightarrow>
     play_turn s own_card mesa_cards = (Some RondaFinishedError, s) \<and>
     is_finished (snd (play_turn s own_card mesa_cards))"
  by (simp add: play_turn_def)

theorem play_turn_after_finish_witness:
  "is_finished finished_round \<and>
   play_turn finished_round (1, ''o'') (Some [(2, ''o'')]) =
     (Some RondaFinishedError, finished_round) \<and>
   is_finished (snd (play_turn finished_round (1, ''o'') (Some [(2, ''o'')])))"

proof -
  have h: "is_finished finished_round" by (simp add: is_finished_def sample_defs)
  from play_turn_after_finish[OF h] h show ?thesis by simp

qed

text \<open>
  C9, the mesa at the end of the round: the call that finishes the round adds the cards
  left on the mesa to the last picker's pile and leaves the mesa as it is, so
  \<^verbatim>\<open>current_mesa\<close> still returns those cards once the round is finished.
\<close>

theorem mesa_kept_at_finish:
  assumes "\<not> is_finished s" and "turn_action s own_card mesa_cards = Inr s1"
    and "hand_is_done s1 = Inr True" and "cards (deck s1) = []"
  shows "is_finished (snd (play_turn s own_card mesa_cards)) \<and>
         mesa (snd (play_turn s own_card mesa_cards)) = mesa s1 \<and>
         current_mesa (snd (play_turn s own_card mesa_cards)) = current_mesa s1 \<and>
         pila (store (snd (play_turn s own_card mesa_cards)) (last_picked_up s1)) =
           pila (store s1 (last_picked_up s1)) @ [(current_mesa s1, False)]"

proof -
  from assms(4) have "deck s1 = []" by (simp add: cards_def)
  then show ?thesis
    by (simp add: play_turn_unfinished[OF assms(1-3)] is_finished_def current_mesa_def)

qed

theorem mesa_kept_at_finish_witness:
  "\<not> is_finished (last_turn []) \<and>
   turn_action (last_turn []) (7, ''o'') None = Inr (last_action []) \<and>
   hand_is_done (last_action []) = Inr True \<and> cards (deck (last_action [])) = [] \<and>
   is_finished (snd (play_turn (last_turn []) (7, ''o'') None)) \<and>
   current_mesa (snd (play_turn (last_turn []) (7, ''o'') None)) =
     [(1, ''o''), (2, ''o''), (3, ''o''), (1, ''c''), (2, ''c''), (6, ''o''), (3, ''c''),
      (7, ''o'')]"

proof -
  have h: "\<not> is_finished (last_turn [])" "hand_is_done (last_action []) = Inr True"
    "cards (deck (last_action [])) = []"
    by (simp_all add: ronda_eval sample_defs)
  from mesa_kept_at_finish[OF h(1) last_action_reached h(2,3)] h last_action_reached
  show ?thesis by (simp add: sample_defs current_mesa_def)

qed

subsection \<open>The opening deal\<close>

lemma play_turn_dealt_escoba:
  "dealt_escoba (snd (play_turn t own_card mesa_cards)) = dealt_escoba t"

proof -
  obtain e t' where pt: "play_turn t own_card mesa_cards = (e, t')"
    by (cases "play_turn t own_card mesa_cards")
  from play_turn_frame[OF pt] pt show ?thesis by (simp add: dealt_escoba_def)

qed

lemma deal_hands_keeps_mesa:
  "dealt_escoba (snd (deal_hands t)) = dealt_escoba t \<and>
   current_mesa (snd (deal_hands t)) = current_mesa t"

proof -
  obtain e t' where dh: "deal_hands t = (e, t')" by (cases "deal_hands t")
  from deal_hands_frame[OF dh] dh show ?thesis by (simp add: dealt_escoba_def current_mesa_def)

qed

text \<open>
  C4, an escoba on the opening deal: the constructor deals the first 4 cards of the deck
  to the mesa. When their point values add up to 15, \<^verbatim>\<open>dealt_escoba\<close> is true after
  construction, the mesa is empty and the dealer's pile has gained exactly those 4 cards
  as one capture flagged as an escoba; for any other sum \<^verbatim>\<open>dealt_escoba\<close> is false, the
  mesa holds the 4 cards and the dealer's pile is as it was. No other pile changes. The
  check is made at construction only: neither \<^verbatim>\<open>play_turn\<close> nor a later deal of hands
  changes the flag, and a deal of hands leaves the mesa alone.
\<close>

theorem escoba_on_opening_deal:
  assumes "Ronda_init st ps d dk = Inr s"
  shows "length (take 4 dk) = 4 \<and>
         (if sum_list (map fst (take 4 dk)) = 15
          then dealt_escoba s \<and> current_mesa s = [] \<and>
               pila (store s d) = pila (st d) @ [(take 4 dk, True)]
          else \<not> dealt_escoba s \<and> current_mesa s = take 4 dk \<and>
               pila (store s d) = pila (st d)) \<and>
         (\<forall>q. q \<noteq> d \<longrightarrow> pila (store s q) = pila (st q)) \<and>
         (\<forall>t own_card mesa_cards.
            dealt_escoba (snd (play_turn t own_card mesa_cards)) = dealt_escoba t) \<and>
         (\<forall>t. dealt_escoba (snd (deal_hands t)) = dealt_escoba t \<and>
              current_mesa (snd (deal_hands t)) = current_mesa t)"

proof -
  from Ronda_init_Inr[OF assms] obtain di s2 where len: "4 \<le> length dk"
    and run: "deal_hands_loop ps (opening_deal st ps d di dk) = (None, s2)"
    and s: "s = s2\<lparr>current_player_attr := (di + 1) mod length ps\<rparr>" by blast
  from deal_hands_loop_frame[OF run]
  have fr: "dealt_escoba_attr s2 = (sum_list (map fst (take 4 dk)) = 15)"
    "mesa s2 = (if sum_list (map fst (take 4 dk)) = 15 then [] else take 4 dk)"
    "\<And>q. pila (store s2 q) = pila (store (opening_deal st ps d di dk) q)"
    by (simp_all add: opening_deal_def)
  have 1: "length (take 4 dk) = 4" using len by simp
  have 2: "if sum_list (map fst (take 4 dk)) = 15
           then dealt_escoba s \<and> current_mesa s = [] \<and>
                pila (store s d) = pila (st d) @ [(take 4 dk, True)]
           else \<not> dealt_escoba s \<and> current_mesa s = take 4 dk \<and>
                pila (store s d) = pila (st d)"
    using fr by (simp add: s dealt_escoba_def current_mesa_def opening_deal_def pila_add_def)
  have 3: "\<forall>q. q \<noteq> d \<longrightarrow> pila (store s q) = pila (st q)"
    using fr(3) by (simp add: s opening_deal_def)
  from 1 2 3 play_turn_dealt_escoba deal_hands_keeps_mesa show ?thesis by blast

qed

theorem escoba_on_opening_deal_witness:
  "Ronda_init new_players [0, 1] 0 escoba_deck = Inr escoba_opened \<and>
   sum_list (map fst (take 4 escoba_deck)) = 15 \<and>
   dealt_escoba escoba_opened \<and> current_mesa escoba_opened = [] \<and>
   pila (store escoba_opened 0) = [([(1, ''o''), (2, ''o''), (5, ''o''), (7, ''o'')], True)] \<and>
   Ronda_init new_players [0, 1] 0 deck10 = Inr opened \<and>
   sum_list (map fst (take 4 deck10)) = 10 \<and>
   \<not> dealt_escoba opened \<and>
   current_mesa opened = [(1, ''o''), (2, ''o''), (3, ''o''), (4, ''o'')] \<and>
   pila (store opened 0) = []"

proof -
  have sums: "sum_list (map fst (take 4 escoba_deck)) = 15"
    "sum_list (map fst (take 4 deck10)) = 10"
    "take 4 escoba_deck = [(1, ''o''), (2, ''o''), (5, ''o''), (7, ''o'')]"
    "take 4 deck10 = [(1, ''o''), (2, ''o''), (3, ''o''), (4, ''o'')]"
    by (simp_all add: sample_defs)
  from escoba_on_opening_deal[OF escoba_opened_reached]
    escoba_on_opening_deal[OF opened_reached] sums escoba_opened_reached opened_reached
  show ?thesis by (simp add: new_players_def)

qed

subsection \<open>A deck that runs out\<close>

text \<open>
  C6 as the code has it: construction raises DeckExhaustedError exactly when the dealer
  is one of the players and the deck holds fewer than 4 + 3 N cards. The error is not
  confined to construction: \<^verbatim>\<open>play_turn\<close> raises it exactly when the round is not
  finished, the action leaves the dealer, as current player, with an empty hand, and the
  deck is not empty but holds fewer than 3 N cards for the new hands.
\<close>

theorem deck_exhausted:
  "(Ronda_init st ps d dk = Inl DeckExhaustedError \<longleftrightarrow>
      d \<in> set ps \<and> length dk < 4 + 3 * length ps) \<and>
   (fst (play_turn s own_card mesa_cards) = Some DeckExhaustedError \<longleftrightarrow>
      \<not> is_finished s \<and>
      (\<exists>s1. turn_action s own_card mesa_cards = Inr s1 \<and> hand_is_done s1 = Inr True \<and>
            cards (deck s1) \<noteq> [] \<and> length (deck s1) < 3 * length (players s1)))"
  using Ronda_init_short_deck[of d ps dk st] Ronda_init_DeckExhausted[of st ps d dk]
    play_turn_DeckExhausted[of s own_card mesa_cards]
  by (auto simp: cards_def)

theorem deck_exhausted_witness:
  "(0::pref) \<in> set [0, 1] \<and> length (take 9 deck10) < 4 + 3 * length [0::pref, 1] \<and>
   Ronda_init new_players [0, 1] 0 (take 9 deck10) = Inl DeckExhaustedError \<and>
   \<not> is_finished (last_turn [(9, ''e'')]) \<and>
   turn_action (last_turn [(9, ''e'')]) (7, ''o'') None = Inr (last_action [(9, ''e'')]) \<and>
   hand_is_done (last_action [(9, ''e'')]) = Inr True \<and>
   cards (deck (last_action [(9, ''e'')])) = [(9, ''e'')] \<and>
   length (players (last_action [(9, ''e'')])) = 2 \<and>
   fst (play_turn (last_turn [(9, ''e'')]) (7, ''o'') None) = Some DeckExhaustedError"

proof -
  have h: "(0::pref) \<in> set [0, 1]" "length (take 9 deck10) < 4 + 3 * length [0::pref, 1]"
    "\<not> is_finished (last_turn [(9, ''e'')])"
    "hand_is_done (last_action [(9, ''e'')]) = Inr True"
    "cards (deck (last_action [(9, ''e'')])) = [(9, ''e'')]"
    "length (players (last_action [(9, ''e'')])) = 2"
    by (simp_all add: ronda_eval sample_defs)
  have short: "cards (deck (last_action [(9, ''e'')])) \<noteq> []"
    "length (deck (last_action [(9, ''e'')])) < 3 * length (players (last_action [(9, ''e'')]))"
    by (simp_all add: ronda_eval sample_defs)
  note both = deck_exhausted[of new_players "[0, 1]" 0 "take 9 deck10"
      "last_turn [(9, ''e'')]" "(7, ''o'')" None]
  from both h(1,2) have 1: "Ronda_init new_players [0, 1] 0 (take 9 deck10) =
      Inl DeckExhaustedError" by blast
  from both h(3,4) short last_action_reached[of "[(9, ''e'')]"]
  have 2: "fst (play_turn (last_turn [(9, ''e'')]) (7, ''o'') None) = Some DeckExhaustedError"
    by blast
  from 1 2 h last_action_reached[of "[(9, ''e'')]"] show ?thesis by simp

qed

text \<open>
  The claim that the error arises at construction only fails: with two new players and
  a deck of 11 cards the constructor returns, five calls return, and the sixth call of
  \<^verbatim>\<open>play_turn\<close> raises DeckExhaustedError, one card being left for two hands of three.
\<close>

theorem deck_exhausted_in_play_turn:
  "Ronda_init new_players [0, 1] 0 deck11 \<noteq> Inl DeckExhaustedError \<and>
   ronda_after new_players [0, 1] 0 deck11 calls5 = Inr (last_turn [(9, ''e'')]) \<and>
   play_turns (last_turn [(9, ''e'')]) [((7, ''o''), None)] = Inl DeckExhaustedError"
  by (simp add: ronda_eval sample_defs fun_eq_iff)

subsection \<open>Moves that are not valid\<close>

text \<open>
  C7, validation before mutation: on an unfinished round whose current player exists, a
  call of \<^verbatim>\<open>play_turn\<close> whose own card is not in the current player's hand, or that
  lists a mesa card that is not on the mesa, raises InvalidMoveError and leaves the whole
  object as it was: mesa, hands, piles, last picker, current player and deck.
\<close>

theorem invalid_move_is_atomic:
  assumes "\<not> is_finished s" and "current_player s = Inr p"
    and "own_card \<notin> set (current_hand (store s p)) \<or>
         (\<exists>c\<in>set (selection mesa_cards). c \<notin> set (current_mesa s))"
  shows "play_turn s own_card mesa_cards = (Some InvalidMoveError, s)"

proof -
  have "turn_action s own_card mesa_cards = Inl InvalidMoveError"
  proof (cases "mesa_cards = Some [] \<or> mesa_cards = None")
    case True
    then have "selection mesa_cards = []" by auto
    with assms(3) have "own_card \<notin> set (hand (store s p))" by (simp add: current_hand_def)
    with True assms(2) show ?thesis by (simp add: turn_action_def place_card_on_mesa_def)
  next
    case False
    then obtain c cs where sel: "mesa_cards = Some (c # cs)"
      by (cases mesa_cards; cases "selection mesa_cards") auto
    have "own_card \<notin> set (hand (store s p)) \<or> \<not> on_mesa (mesa s) (selection mesa_cards)"
      using assms(3) on_mesa_subset[of "mesa s" "selection mesa_cards"]
      by (auto simp: current_hand_def current_mesa_def)
    with assms(2) show ?thesis
      unfolding sel by (simp add: turn_action_def pick_up_from_mesa_def)
  qed
  with assms(1) show ?thesis by (simp add: play_turn_def)

qed

theorem invalid_move_is_atomic_witness:
  "\<not> is_finished opened \<and> current_player opened = Inr 1 \<and>
   (7, ''o'') \<notin> set (current_hand (store opened 1)) \<and>
   play_turn opened (7, ''o'') None = (Some InvalidMoveError, opened) \<and>
   (1, ''c'') \<in> set (current_hand (store opened 1)) \<and>
   (9, ''e'') \<in> set (selection (Some [(4, ''o''), (9, ''e'')])) \<and>
   (9, ''e'') \<notin> set (current_mesa opened) \<and>
   play_turn opened (1, ''c'') (Some [(4, ''o''), (9, ''e'')]) = (Some InvalidMoveError, opened)"

proof -
  have h: "\<not> is_finished opened" "current_player opened = Inr 1"
    "(7, ''o'') \<notin> set (current_hand (store opened 1))"
    "(1, ''c'') \<in> set (current_hand (store opened 1))"
    "(9, ''e'') \<in> set (selection (Some [(4, ''o''), (9, ''e'')]))"
    "(9, ''e'') \<notin> set (current_mesa opened)"
    by (simp_all add: ronda_eval sample_defs)
  from h(3) have a: "(7, ''o'') \<notin> set (current_hand (store opened 1)) \<or>
      (\<exists>c\<in>set (selection None). c \<notin> set (current_mesa opened))" by blast
  from h(5,6) have b: "(1, ''c'') \<notin> set (current_hand (store opened 1)) \<or>
      (\<exists>c\<in>set (selection (Some [(4, ''o''), (9, ''e'')])). c \<notin> set (current_mesa opened))"
    by blast
  from invalid_move_is_atomic[OF h(1,2) a] invalid_move_is_atomic[OF h(1,2) b] h
  show ?thesis by simp

qed

subsection \<open>Turn order and the last picker\<close>

text \<open>
  C8, turn order and the last picker: after construction the dealer's index is the
  position of the dealer in the players list, the current player is the one at index
  (dealer + 1) mod N, and the last picker is the dealer. A capture, that is a call of
  \<^verbatim>\<open>play_turn\<close> on an unfinished round with a non-empty selection whose action
  succeeds, makes the acting player the last picker; a call that places a card, or whose
  action raises, leaves the last picker as it was.
\<close>

theorem turn_order_and_last_picker:
  "(Ronda_init st ps d dk = Inr s \<longrightarrow>
      players s = ps \<and> list_index ps d = Inr (dealer s) \<and>
      current_player_attr s = (dealer s + 1) mod length ps \<and>
      current_player s = Inr (ps ! ((dealer s + 1) mod length ps)) \<and>
      last_picked_up s = d) \<and>
   (\<not> is_finished t \<and> mesa_cards \<noteq> Some [] \<and> mesa_cards \<noteq> None \<and>
    current_player t = Inr p \<and> turn_action t own_card mesa_cards = Inr t1 \<longrightarrow>
      last_picked_up (snd (play_turn t own_card mesa_cards)) = p) \<and>
   (mesa_cards = Some [] \<or> mesa_cards = None \<or> isl (turn_action t own_card mesa_cards) \<longrightarrow>
      last_picked_up (snd (play_turn t own_card mesa_cards)) = last_picked_up t)"

proof -
  have 1: "players s = ps \<and> list_index ps d = Inr (dealer s) \<and>
      current_player_attr s = (dealer s + 1) mod length ps \<and>
      current_player s = Inr (ps ! ((dealer s + 1) mod length ps)) \<and>
      last_picked_up s = d" if init: "Ronda_init st ps d dk = Inr s"
  proof -
    from Ronda_init_Inr[OF init] obtain di s2 where di: "list_index ps d = Inr di"
      and run: "deal_hands_loop ps (opening_deal st ps d di dk) = (None, s2)"
      and s: "s = s2\<lparr>current_player_attr := (di + 1) mod length ps\<rparr>" by blast
    from list_index_Inr[OF di] have "0 < length ps" by arith
    then have cn: "(di + 1) mod length ps < length ps" by (rule mod_less_divisor)
    from deal_hands_loop_frame[OF run]
    have "players s2 = ps" "dealer s2 = di" "last_picked_up s2 = d"
      by (simp_all add: opening_deal_def)
    with di cn show ?thesis by (simp add: s current_player_def getitem_def)
  qed
  obtain e t' where pt: "play_turn t own_card mesa_cards = (e, t')"
    by (cases "play_turn t own_card mesa_cards")
  note lp = play_turn_frame[OF pt, THEN conjunct2, THEN conjunct2, THEN conjunct2,
      THEN conjunct2, THEN conjunct2, THEN conjunct2]
  have 2: "last_picked_up (snd (play_turn t own_card mesa_cards)) = p"
    if "\<not> is_finished t" "mesa_cards \<noteq> Some []" "mesa_cards \<noteq> None"
      "current_player t = Inr p" "turn_action t own_card mesa_cards = Inr t1"
  proof -
    from turn_action_Inr[OF that(5)] that(2-4) have "last_picked_up t1 = p" by auto
    with lp that(1,5) pt show ?thesis by (simp add: is_finished_def)
  qed
  have 3: "last_picked_up (snd (play_turn t own_card mesa_cards)) = last_picked_up t"
    if "mesa_cards = Some [] \<or> mesa_cards = None \<or> isl (turn_action t own_card mesa_cards)"
  proof (cases "turn_action t own_card mesa_cards")
    case (Inl x)
    with lp pt show ?thesis by simp
  next
    case (Inr t1)
    with that have "mesa_cards = Some [] \<or> mesa_cards = None" by simp
    with turn_action_Inr[OF Inr] have "last_picked_up t1 = last_picked_up t" by auto
    with lp Inr pt show ?thesis by simp
  qed
  from 1 2 3 show ?thesis by blast

qed

theorem turn_order_and_last_picker_witness:
  "Ronda_init new_players [0, 1] 0 deck10 = Inr opened \<and>
   list_index [0, 1] (0::pref) = Inr 0 \<and> current_player opened = Inr 1 \<and>
   last_picked_up opened = 0 \<and> \<not> is_finished opened \<and>
   \<not> isl (turn_action opened (1, ''c'') (Some [(4, ''o'')])) \<and>
   last_picked_up (snd (play_turn opened (1, ''c'') (Some [(4, ''o'')]))) = 1 \<and>
   last_picked_up (snd (play_turn opened (1, ''c'') None)) = 0 \<and>
   isl (turn_action opened (1, ''c'') (Some [(9, ''e'')])) \<and>
   last_picked_up (snd (play_turn opened (1, ''c'') (Some [(9, ''e'')]))) = 0"

proof -
  obtain t1 where ta: "turn_action opened (1, ''c'') (Some [(4, ''o'')]) = Inr t1"
    by (simp add: ronda_eval sample_defs)
  have h: "\<not> is_finished opened" "current_player opened = Inr 1" "last_picked_up opened = 0"
    "isl (turn_action opened (1, ''c'') (Some [(9, ''e'')]))" "dealer opened = 0"
    by (simp_all add: ronda_eval sample_defs)
  note a = turn_order_and_last_picker[of new_players "[0, 1]" 0 deck10 opened opened
      "Some [(4, ''o'')]" 1 "(1, ''c'')" t1]
  note b = turn_order_and_last_picker[of new_players "[0, 1]" 0 deck10 opened opened
      None 1 "(1, ''c'')" t1]
  note c = turn_order_and_last_picker[of new_players "[0, 1]" 0 deck10 opened opened
      "Some [(9, ''e'')]" 1 "(1, ''c'')" t1]
  from a opened_reached h ta
  have 1: "list_index [0, 1] (0::pref) = Inr 0"
    "last_picked_up (snd (play_turn opened (1, ''c'') (Some [(4, ''o'')]))) = 1" by simp_all
  from b h have 2: "last_picked_up (snd (play_turn opened (1, ''c'') None)) = 0" by simp
  from c h have 3: "last_picked_up (snd (play_turn opened (1, ''c'') (Some [(9, ''e'')]))) = 0"
    by simp
  from 1 2 3 h ta opened_reached show ?thesis by simp

qed

subsection \<open>The current player\<close>

text \<open>
  C10, the current player: in every state reached by construction and calls of
  \<^verbatim>\<open>play_turn\<close> that return, the current player index is a valid index of the players
  list; the call that finishes a round does not advance it; and in every finished state
  \<^verbatim>\<open>current_player\<close> returns the dealer.
\<close>

theorem current_player_after_finish:
  assumes "ronda_after st ps d dk calls = Inr s"
  shows "current_player_attr s < length (players s) \<and>
         (is_finished s \<longrightarrow> current_player s = Inr d) \<and>
         (\<forall>own_card mesa_cards.
            \<not> is_finished s \<and> is_finished (snd (play_turn s own_card mesa_cards)) \<longrightarrow>
            current_player_attr (snd (play_turn s own_card mesa_cards)) =
              current_player_attr s)"

proof -
  from assms obtain s0 where init: "Ronda_init st ps d dk = Inr s0"
    and run: "play_turns s0 calls = Inr s"
    by (auto simp: ronda_after_def split: sum.splits)
  from index_inv_play_turns[OF index_inv_init[OF init] run]
  have 1: "current_player_attr s < length (players s)"
    and 2: "is_finished s \<longrightarrow> current_player s = Inr d"
    by (simp_all add: index_inv_def is_finished_def)
  have 3: "current_player_attr (snd (play_turn s own_card mesa_cards)) = current_player_attr s"
    if "\<not> is_finished s \<and> is_finished (snd (play_turn s own_card mesa_cards))"
    for own_card mesa_cards
  proof -
    obtain e s' where pt: "play_turn s own_card mesa_cards = (e, s')"
      by (cases "play_turn s own_card mesa_cards")
    from play_turn_frame[OF pt] that pt show ?thesis by (simp add: is_finished_def)
  qed
  from 1 2 3 show ?thesis by blast

qed

theorem current_player_after_finish_witness:
  "ronda_after new_players [0, 1] 0 deck10 (calls5 @ [((7, ''o''), None)]) = Inr finished_round \<and>
   current_player_attr finished_round < length (players finished_round) \<and>
   is_finished finished_round \<and> current_player finished_round = Inr 0 \<and>
   ronda_after new_players [0, 1] 0 deck10 calls5 = Inr (last_turn []) \<and>
   \<not> is_finished (last_turn []) \<and>
   is_finished (snd (play_turn (last_turn []) (7, ''o'') None)) \<and>
   current_player_attr (snd (play_turn (last_turn []) (7, ''o'') None)) =
     current_player_attr (last_turn [])"

proof -
  have r: "ronda_after new_players [0, 1] 0 deck10 (calls5 @ [((7, ''o''), None)]) =
      Inr finished_round"
    by (simp add: ronda_eval sample_defs fun_eq_iff)
  have h: "is_finished finished_round" "\<not> is_finished (last_turn [])"
    by (simp_all add: ronda_eval sample_defs)
  note step = current_player_after_finish[OF last_turn_reached(1), THEN conjunct2,
      THEN conjunct2, rule_format, of "(7, ''o'')" None]
  from step h finished_round_reached
  have "current_player_attr (snd (play_turn (last_turn []) (7, ''o'') None)) =
      current_player_attr (last_turn [])" by simp
  with current_player_after_finish[OF r] r h last_turn_reached(1) finished_round_reached
  show ?thesis by simp

qed

subsection \<open>A new deal of hands\<close>

lemma play_turn_redeal_returns:
  assumes nf: "\<not> is_finished s" and ta: "turn_action s own_card mesa_cards = Inr s1"
    and hd: "hand_is_done s1 = Inr True" and ne: "deck s1 \<noteq> []"
    and enough: "3 * length (players s1) \<le> length (deck s1)"
    and dist: "distinct (players s1)"
  shows "fst (play_turn s own_card mesa_cards) = None"

proof -
  from deal_hands_loop_enough[OF enough dist] obtain s2
    where run: "deal_hands_loop (players s1) s1 = (None, s2)" by blast
  from hd have "players s1 \<noteq> []"
    by (auto simp: hand_is_done_def current_player_def getitem_def split: sum.splits if_splits)
  with deal_hands_loop_frame[OF run] have "fst (next_player s2) = None"
    by (simp add: next_player_def)
  with ne run show ?thesis by (simp add: play_turn_unfinished[OF nf ta hd])

qed

text \<open>
  C5 as the code has it: in a round built from distinct players with empty hands and
  piles, after calls that return, let a call of \<^verbatim>\<open>play_turn\<close> perform its action. The
  call returns with a hand of exactly 3 cards dealt to every player, in the order of the
  players list, if and only if the current player is the dealer, the dealer's hand is
  empty after the action, the deck is not empty and it holds at least 3 N cards. Such a
  deal happens only when every hand is empty, and afterwards every hand has exactly 3
  cards.
\<close>

theorem redeal_trigger:
  assumes "ronda_after st ps d dk calls = Inr s" and "distinct ps" and "fresh_players st ps"
    and "turn_action s own_card mesa_cards = Inr s1"
  shows "(fst (play_turn s own_card mesa_cards) = None \<and>
          hands_dealt s1 (snd (play_turn s own_card mesa_cards)) \<longleftrightarrow>
          \<not> is_finished s \<and> hand_is_done s1 = Inr True \<and> cards (deck s1) \<noteq> [] \<and>
          3 * length (players s1) \<le> length (deck s1)) \<and>
         (fst (play_turn s own_card mesa_cards) = None \<and>
          hands_dealt s1 (snd (play_turn s own_card mesa_cards)) \<longrightarrow>
          (\<forall>p\<in>set (players s1).
             current_hand (store s1 p) = [] \<and>
             length (current_hand (store (snd (play_turn s own_card mesa_cards)) p)) = 3))"

proof -
  let ?s' = "snd (play_turn s own_card mesa_cards)"
  let ?n = "length (players s)"
  note ta = assms(4)
  from round_inv_ronda_after[OF assms(1-3)] have inv: "round_inv s" .
  then have dist: "distinct (players s)" and c: "current_player_attr s < ?n"
    by (simp_all add: round_inv_def)
  from c have npos: "0 < ?n" by arith
  from turn_action_frame[OF ta] have fr: "players s1 = players s" by simp
  have returns: "\<not> is_finished s \<and>
      (if hand_is_done s1 = Inr True \<and> deck s1 \<noteq> []
       then 3 * ?n \<le> length (deck s1) \<and> deck ?s' = drop (3 * ?n) (deck s1) \<and>
            (\<forall>j<?n. hand (store s1 (players s ! j)) = [] \<and>
                     hand (store ?s' (players s ! j)) = take 3 (drop (3 * j) (deck s1)))
       else deck ?s' = deck s1)"
    if none: "fst (play_turn s own_card mesa_cards) = None"
  proof -
    from none have pt: "play_turn s own_card mesa_cards = (None, ?s')"
      by (metis prod.collapse)
    from play_turn_returns[OF inv pt] ta show ?thesis
      by (auto simp: is_finished_def split: if_splits)
  qed
  have forward: "\<not> is_finished s \<and> hand_is_done s1 = Inr True \<and> cards (deck s1) \<noteq> [] \<and>
                 3 * length (players s1) \<le> length (deck s1)"
    if none: "fst (play_turn s own_card mesa_cards) = None" and hd: "hands_dealt s1 ?s'"
  proof -
    from hd have len: "3 * ?n \<le> length (deck s1)"
      and dk: "deck ?s' = drop (3 * ?n) (deck s1)" by (simp_all add: hands_dealt_def fr)
    from dk have "length (deck ?s') = length (deck s1) - 3 * ?n" by simp
    with len npos have "length (deck ?s') < length (deck s1)" by arith
    then have "deck ?s' \<noteq> deck s1" by auto
    with returns[OF none] have "hand_is_done s1 = Inr True \<and> deck s1 \<noteq> []" by presburger
    with len returns[OF none] show ?thesis by (simp add: cards_def fr)
  qed
  have backward: "fst (play_turn s own_card mesa_cards) = None \<and> hands_dealt s1 ?s'"
    if nf: "\<not> is_finished s" and hd: "hand_is_done s1 = Inr True"
      and ne: "cards (deck s1) \<noteq> []" and len: "3 * length (players s1) \<le> length (deck s1)"
  proof -
    from ne have ne': "deck s1 \<noteq> []" by (simp add: cards_def)
    from dist fr have "distinct (players s1)" by simp
    from play_turn_redeal_returns[OF nf ta hd ne' len this]
    have none: "fst (play_turn s own_card mesa_cards) = None" .
    from returns[OF none] hd ne' have "3 * ?n \<le> length (deck s1)"
      "deck ?s' = drop (3 * ?n) (deck s1)"
      "\<forall>j<?n. hand (store s1 (players s ! j)) = [] \<and>
               hand (store ?s' (players s ! j)) = take 3 (drop (3 * j) (deck s1))"
      by simp_all
    then have "hands_dealt s1 ?s'" by (simp add: hands_dealt_def fr)
    with none show ?thesis by simp
  qed
  have hands: "current_hand (store s1 p) = [] \<and> length (current_hand (store ?s' p)) = 3"
    if none: "fst (play_turn s own_card mesa_cards) = None" and hd: "hands_dealt s1 ?s'"
      and p: "p \<in> set (players s1)" for p
  proof -
    from forward[OF none hd] have cond: "hand_is_done s1 = Inr True \<and> deck s1 \<noteq> []"
      by (simp add: cards_def)
    from p fr obtain j where j: "j < ?n" and pj: "players s ! j = p"
      by (auto simp: in_set_conv_nth)
    from returns[OF none] cond j pj have len: "3 * ?n \<le> length (deck s1)"
      and e: "hand (store s1 p) = []"
      and h: "hand (store ?s' p) = take 3 (drop (3 * j) (deck s1))" by auto
    from len j have "3 * j + 3 \<le> length (deck s1)" by arith
    with e h show ?thesis by (simp add: current_hand_def)
  qed
  from forward backward hands show ?thesis by blast

qed

theorem redeal_trigger_witness:
  "ronda_after new_players [0, 1] 0 deck16 calls5 =
     Inr (last_turn [(4, ''c''), (5, ''c''), (6, ''c''), (7, ''c''), (1, ''e''), (2, ''e'')]) \<and>
   distinct [0::pref, 1] \<and> fresh_players new_players [0, 1] \<and>
   turn_action (last_turn [(4, ''c''), (5, ''c''), (6, ''c''), (7, ''c''), (1, ''e''), (2, ''e'')])
     (7, ''o'') None =
     Inr (last_action [(4, ''c''), (5, ''c''), (6, ''c''), (7, ''c''), (1, ''e''), (2, ''e'')]) \<and>
   hand_is_done
     (last_action [(4, ''c''), (5, ''c''), (6, ''c''), (7, ''c''), (1, ''e''), (2, ''e'')]) =
     Inr True \<and>
   play_turn (last_turn [(4, ''c''), (5, ''c''), (6, ''c''), (7, ''c''), (1, ''e''), (2, ''e'')])
     (7, ''o'') None = (None, redealt) \<and>
   hands_dealt
     (last_action [(4, ''c''), (5, ''c''), (6, ''c''), (7, ''c''), (1, ''e''), (2, ''e'')])
     redealt \<and>
   current_hand (store redealt 0) = [(4, ''c''), (5, ''c''), (6, ''c'')] \<and>
   current_hand (store redealt 1) = [(7, ''c''), (1, ''e''), (2, ''e'')]"

proof -
  let ?dk = "[(4, ''c''), (5, ''c''), (6, ''c''), (7, ''c''), (1, ''e''), (2, ''e'')]"
  have h: "distinct [0::pref, 1]" "fresh_players new_players [0, 1]"
    "\<not> is_finished (last_turn ?dk)" "hand_is_done (last_action ?dk) = Inr True"
    "cards (deck (last_action ?dk)) \<noteq> []"
    "3 * length (players (last_action ?dk)) \<le> length (deck (last_action ?dk))"
    "current_hand (store redealt 0) = [(4, ''c''), (5, ''c''), (6, ''c'')]"
    "current_hand (store redealt 1) = [(7, ''c''), (1, ''e''), (2, ''e'')]"
    by (simp_all add: ronda_eval sample_defs fresh_players_def)
  from redeal_trigger[OF last_turn_reached(3) h(1,2) last_action_reached[of ?dk]] h(3-6)
  have "hands_dealt (last_action ?dk) (snd (play_turn (last_turn ?dk) (7, ''o'') None))"
    by blast
  with h last_turn_reached(3) last_action_reached[of ?dk] redealt_reached
  show ?thesis by simp

qed

text \<open>
  The claim without the bound on the deck fails: with two new players and a deck of 11
  cards, after five calls that return, the sixth leaves the dealer with an empty hand on
  the dealer's turn and one card in the deck; the call raises DeckExhaustedError and no
  player holds a card.
\<close>

theorem redeal_short_deck:
  "ronda_after new_players [0, 1] 0 deck11 calls5 = Inr (last_turn [(9, ''e'')]) \<and>
   turn_action (last_turn [(9, ''e'')]) (7, ''o'') None = Inr (last_action [(9, ''e'')]) \<and>
   hand_is_done (last_action [(9, ''e'')]) = Inr True \<and>
   cards (deck (last_action [(9, ''e'')])) \<noteq> [] \<and>
   fst (play_turn (last_turn [(9, ''e'')]) (7, ''o'') None) = Some DeckExhaustedError \<and>
   \<not> hands_dealt (last_action [(9, ''e'')])
        (snd (play_turn (last_turn [(9, ''e'')]) (7, ''o'') None)) \<and>
   current_hand (store (snd (play_turn (last_turn [(9, ''e'')]) (7, ''o'') None)) 0) = [] \<and>
   current_hand (store (snd (play_turn (last_turn [(9, ''e'')]) (7, ''o'') None)) 1) = []"
  by (simp add: ronda_eval sample_defs fun_eq_iff hands_dealt_def)

end
